theory Spec2Isabelle
  imports Complex_Main "HOL-Library.Word" "HOL-Library.Multiset"
begin

section \<open>Floating-point values of the notebook\<close>

text \<open>
  The notebook computes with two binary floating-point formats: Python floats
  (binary64) for \<^verbatim>\<open>0.1 * num_examples\<close> and for the reported metrics, and
  \<^verbatim>\<open>tf.float32\<close> (binary32) for the image tensors. A finite floating-point value is
  modelled by the rational number it denotes, and every operation by the exact rational
  operation followed by rounding to the nearest value of the format, ties to even.
  Overflow to infinity is outside the model: all quotients and products formed by the
  notebook stay far below the largest finite value of their format.
\<close>

function bit_length :: "int \<Rightarrow> int" where
  "bit_length n = (if n \<le> 0 then 0 else 1 + bit_length (n div 2))"
  by pat_completeness auto
termination
  by (relation "measure nat") auto

declare bit_length.simps [simp del]

definition pow2 :: "int \<Rightarrow> rat" where
  "pow2 e = (if 0 \<le> e then 2 ^ nat e else 1 / 2 ^ nat (- e))"

definition round_half_even :: "rat \<Rightarrow> int" where
  "round_half_even x =
     (let f = \<lfloor>x\<rfloor>; d = x - of_int f
      in if d < 1 / 2 then f
         else if 1 / 2 < d then f + 1
         else if even f then f else f + 1)"

text \<open>
  \<open>binade emin x\<close> is the exponent \<open>e\<close> with \<open>2^e \<le> |x| < 2^(e+1)\<close>, but never below
  the smallest normal exponent \<open>emin\<close> (below it the format is subnormal and the spacing
  of its values no longer shrinks).
\<close>

definition binade :: "int \<Rightarrow> rat \<Rightarrow> int" where
  "binade emin x =
     (if x = 0 then emin
      else if 1 \<le> \<bar>x\<bar> then max emin (bit_length \<lfloor>\<bar>x\<bar>\<rfloor> - 1)
      else max emin (- bit_length (\<lceil>1 / \<bar>x\<bar>\<rceil> - 1)))"

text \<open>Rounding to a format with \<open>p\<close> significand bits and smallest normal exponent \<open>emin\<close>.\<close>

definition round_binary :: "nat \<Rightarrow> int \<Rightarrow> rat \<Rightarrow> rat" where
  "round_binary p emin x =
     (let ulp = pow2 (binade emin x - int p + 1)
      in of_int (round_half_even (x / ulp)) * ulp)"

definition float32 :: "rat \<Rightarrow> rat" where
  "float32 x = round_binary 24 (- 126) x"

definition float64 :: "rat \<Rightarrow> rat" where
  "float64 x = round_binary 53 (- 1022) x"

text \<open>A cast from a float to \<^verbatim>\<open>tf.int64\<close> drops the fractional part.\<close>

definition trunc :: "rat \<Rightarrow> int" where
  "trunc x = (if 0 \<le> x then \<lfloor>x\<rfloor> else \<lceil>x\<rceil>)"

section \<open>Samples and the scale function\<close>

text \<open>
  An MNIST image is a \<open>28 \<times> 28 \<times> 1\<close> tensor of unsigned bytes, a sample is an image
  with its label. \<^verbatim>\<open>tf.cast\<close> and the division act on every element.
  \<^verbatim>\<open>
  def scale(image, label):
      image = tf.cast(image, tf.float32)
      image /= 255.
      return image, label
  \<close>
\<close>

type_synonym pixel = "8 word"
type_synonym image = "pixel list list list"
type_synonym tensor = "rat list list list"

definition tf_cast_float32 :: "image \<Rightarrow> tensor" where
  "tf_cast_float32 img = map (map (map (\<lambda>p. float32 (of_nat (unat p))))) img"

definition tf_divide :: "tensor \<Rightarrow> rat \<Rightarrow> tensor" where
  "tf_divide t c = map (map (map (\<lambda>x. float32 (x / c)))) t"

fun scale :: "image \<times> 'l \<Rightarrow> tensor \<times> 'l" where
  "scale (img, label) =
     (let img = tf_cast_float32 img;
          img = tf_divide img (float32 255)
      in (img, label))"

text \<open>All elements of a rank-3 tensor, in row-major order.\<close>

definition elements :: "'a list list list \<Rightarrow> 'a list" where
  "elements t = concat (concat t)"

text \<open>An image of one intensity with the shape of an MNIST image, for concrete inputs.\<close>

definition constant_image :: "pixel \<Rightarrow> image" where
  "constant_image p = replicate 28 (replicate 28 [p])"

section \<open>Sample counts\<close>

text \<open>
  \<^verbatim>\<open>
  num_validation_samples = 0.1 * mnist_info.splits['train'].num_examples
  num_validation_samples = tf.cast(num_validation_samples, tf.int64)
  num_test_samples = mnist_info.splits['test'].num_examples
  num_test_samples = tf.cast(num_test_samples, tf.int64)
  \<close>
  The product is a binary64 product of the binary64 value nearest to \<open>1/10\<close> and the
  count; \<^verbatim>\<open>tf.cast\<close> first makes a binary32 tensor of the Python float and then
  truncates it. The example counts are metadata of the dataset provider and are
  parameters here.
\<close>

definition num_validation_samples :: "nat \<Rightarrow> nat" where
  "num_validation_samples num_examples =
     nat (trunc (float32 (float64 (float64 (1 / 10) * float64 (of_nat num_examples)))))"

definition num_test_samples :: "nat \<Rightarrow> nat" where
  "num_test_samples num_examples = num_examples"

section \<open>Datasets\<close>

text \<open>
  A \<^verbatim>\<open>tf.data.Dataset\<close> is a recipe, not a stored sequence: every iteration over it
  runs the recipe again. The only random stage of the notebook is \<^verbatim>\<open>shuffle\<close>, called
  without a seed and with the default \<^verbatim>\<open>reshuffle_each_iteration\<close>, so every
  iteration draws its own order. A dataset is therefore a function from the random
  draws of one iteration to the sequence that iteration yields.
\<close>

datatype error = InvalidArgumentError | StopIteration | ValueError

type_synonym draws = "nat list"
type_synonym 'a dataset = "draws \<Rightarrow> 'a list"

definition from_split :: "'a list \<Rightarrow> 'a dataset" where
  "from_split xs = (\<lambda>rs. xs)"

definition dataset_map :: "('a \<Rightarrow> 'b) \<Rightarrow> 'a dataset \<Rightarrow> 'b dataset" where
  "dataset_map f ds = (\<lambda>rs. map f (ds rs))"

text \<open>
  \<^verbatim>\<open>shuffle(buffer_size)\<close> fills a buffer with the first \<open>buffer_size\<close> elements, then
  repeatedly emits a randomly chosen element of the buffer and puts the next input
  element in its place; when the input is exhausted the buffer drains. A draw \<open>r\<close>
  selects the slot \<open>r mod length buffer\<close>; when the draws run out, slot 0 is taken.
\<close>

function shuffle_emit :: "draws \<Rightarrow> 'a list \<Rightarrow> 'a list \<Rightarrow> 'a list" where
  "shuffle_emit rs buffer rest =
     (if buffer = [] then []
      else let i = (case rs of [] \<Rightarrow> 0 | r # _ \<Rightarrow> r mod length buffer)
           in case rest of
                [] \<Rightarrow> buffer ! i # shuffle_emit (tl rs) (take i buffer @ drop (Suc i) buffer) []
              | y # ys \<Rightarrow> buffer ! i # shuffle_emit (tl rs) (buffer[i := y]) ys)"
  by pat_completeness auto
termination
proof (relation "measure (\<lambda>(rs, buffer, rest). length buffer + length rest)")
  show "wf (measure (\<lambda>(rs, buffer, rest). length buffer + length rest))" by simp
next
  fix rs :: draws and buffer rest :: "'a list" and i
  assume b: "buffer \<noteq> []"
    and i: "i = (case rs of [] \<Rightarrow> 0 | r # x \<Rightarrow> r mod length buffer)"
    and "rest = []"
  have "i < length buffer" using b i by (cases rs) auto
  then show "((tl rs, take i buffer @ drop (Suc i) buffer, []), rs, buffer, rest)
       \<in> measure (\<lambda>(rs, buffer, rest). length buffer + length rest)"
    by simp
next
  fix rs :: draws and buffer rest :: "'a list" and i y ys
  assume "rest = y # ys"
  then show "((tl rs, buffer[i := y], ys), rs, buffer, rest)
       \<in> measure (\<lambda>(rs, buffer, rest). length buffer + length rest)"
    by simp
qed

declare shuffle_emit.simps [simp del]

definition dataset_shuffle :: "nat \<Rightarrow> 'a dataset \<Rightarrow> error + 'a dataset" where
  "dataset_shuffle buffer_size ds =
     (if buffer_size = 0 then Inl InvalidArgumentError
      else Inr (\<lambda>rs. shuffle_emit rs (take buffer_size (ds rs)) (drop buffer_size (ds rs))))"

definition dataset_take :: "nat \<Rightarrow> 'a dataset \<Rightarrow> 'a dataset" where
  "dataset_take cnt ds = (\<lambda>rs. take cnt (ds rs))"

definition dataset_skip :: "nat \<Rightarrow> 'a dataset \<Rightarrow> 'a dataset" where
  "dataset_skip cnt ds = (\<lambda>rs. drop cnt (ds rs))"

text \<open>
  \<^verbatim>\<open>batch(batch_size)\<close> groups consecutive elements; the notebook does not pass
  \<^verbatim>\<open>drop_remainder\<close>, so a shorter last batch is kept. A batch size of 0 is rejected.
\<close>

function chunks :: "nat \<Rightarrow> 'a list \<Rightarrow> 'a list list" where
  "chunks n xs = (if n = 0 \<or> xs = [] then [] else take n xs # chunks n (drop n xs))"
  by pat_completeness auto
termination
  by (relation "measure (\<lambda>(n, xs). length xs)") auto

declare chunks.simps [simp del]

definition dataset_batch :: "nat \<Rightarrow> 'a dataset \<Rightarrow> error + 'a list dataset" where
  "dataset_batch batch_size ds =
     (if batch_size = 0 then Inl InvalidArgumentError
      else Inr (\<lambda>rs. chunks batch_size (ds rs)))"

section \<open>Loading and preprocessing\<close>

definition BUFFER_SIZE :: nat where "BUFFER_SIZE = 10000"
definition BATCH_SIZE :: nat where "BATCH_SIZE = 100"
definition NUM_EPOCHS :: nat where "NUM_EPOCHS = 5"

type_synonym 'l raw_sample = "image \<times> 'l"
type_synonym 'l sample = "tensor \<times> 'l"

definition scaled_train_and_validation_data :: "'l raw_sample list \<Rightarrow> 'l sample dataset" where
  "scaled_train_and_validation_data mnist_train = dataset_map scale (from_split mnist_train)"

definition shuffled_train_and_validation_data ::
  "'l raw_sample list \<Rightarrow> error + 'l sample dataset" where
  "shuffled_train_and_validation_data mnist_train =
     dataset_shuffle BUFFER_SIZE (scaled_train_and_validation_data mnist_train)"

text \<open>The sequence that one iteration over the shuffled dataset yields, for its draws.\<close>

definition shuffled_order :: "'l raw_sample list \<Rightarrow> draws \<Rightarrow> 'l sample list" where
  "shuffled_order mnist_train rs =
     shuffle_emit rs (take BUFFER_SIZE (map scale mnist_train))
       (drop BUFFER_SIZE (map scale mnist_train))"

text \<open>
  \<^verbatim>\<open>
  validation_data = shuffled_train_and_validation_data.take(num_validation_samples)
  train_data = shuffled_train_and_validation_data.skip(num_validation_samples)
  \<close>
  Both are recipes over the same shuffled recipe; each of their iterations shuffles anew.
\<close>

definition validation_data :: "nat \<Rightarrow> 'a dataset \<Rightarrow> 'a dataset" where
  "validation_data nvs shuffled = dataset_take nvs shuffled"

definition train_data :: "nat \<Rightarrow> 'a dataset \<Rightarrow> 'a dataset" where
  "train_data nvs shuffled = dataset_skip nvs shuffled"

text \<open>\<^verbatim>\<open>next(iter(validation_data))\<close>: the first batch of one iteration.\<close>

definition first_batch :: "'a list \<Rightarrow> error + 'a" where
  "first_batch bs = (case bs of [] \<Rightarrow> Inl StopIteration | b # _ \<Rightarrow> Inr b)"

record 'l prepared =
  train_batches :: "'l sample list dataset"
  validation_inputs_targets :: "'l sample list"
  test_batches :: "'l sample list dataset"

text \<open>
  The preprocessing cell. \<open>rv\<close> are the draws of the one iteration that yields
  \<^verbatim>\<open>validation_inputs, validation_targets\<close>.
\<close>

definition preprocess ::
  "'l raw_sample list \<Rightarrow> 'l raw_sample list \<Rightarrow> nat \<Rightarrow> nat \<Rightarrow> draws \<Rightarrow> error + 'l prepared" where
  "preprocess mnist_train mnist_test train_examples test_examples rv =
     (let nvs = num_validation_samples train_examples;
          nts = num_test_samples test_examples;
          test = dataset_map scale (from_split mnist_test)
      in case shuffled_train_and_validation_data mnist_train of
           Inl e \<Rightarrow> Inl e
         | Inr shuffled \<Rightarrow>
             (case dataset_batch BATCH_SIZE (train_data nvs shuffled) of
                Inl e \<Rightarrow> Inl e
              | Inr train \<Rightarrow>
                  (case dataset_batch nvs (validation_data nvs shuffled) of
                     Inl e \<Rightarrow> Inl e
                   | Inr validation \<Rightarrow>
                       (case dataset_batch nts test of
                          Inl e \<Rightarrow> Inl e
                        | Inr test \<Rightarrow>
                            (case first_batch (validation rv) of
                               Inl e \<Rightarrow> Inl e
                             | Inr v \<Rightarrow>
                                 Inr \<lparr>train_batches = train,
                                      validation_inputs_targets = v,
                                      test_batches = test\<rparr>)))))"

section \<open>The classifier\<close>

datatype activation = Relu | Softmax
datatype layer = Flatten "nat list" | Dense nat activation

definition input_size :: nat where "input_size = 784"
definition output_size :: nat where "output_size = 10"
definition hidden_layer_size :: nat where "hidden_layer_size = 50"

definition model :: "layer list" where
  "model =
     [Flatten [28, 28, 1],
      Dense hidden_layer_size Relu,
      Dense hidden_layer_size Relu,
      Dense output_size Softmax]"

text \<open>
  The shape a layer produces from the shape it receives: \<^verbatim>\<open>Flatten\<close> turns its
  declared input shape into a vector, \<^verbatim>\<open>Dense\<close> maps a vector to a vector of its units.
\<close>

fun layer_output_shape :: "layer \<Rightarrow> nat list \<Rightarrow> nat list option" where
  "layer_output_shape (Flatten input_shape) shape =
     (if shape = input_shape then Some [prod_list shape] else None)"
| "layer_output_shape (Dense units act) shape =
     (case shape of [n] \<Rightarrow> Some [units] | _ \<Rightarrow> None)"

fun output_shape :: "layer list \<Rightarrow> nat list \<Rightarrow> nat list option" where
  "output_shape [] shape = Some shape"
| "output_shape (l # ls) shape =
     (case layer_output_shape l shape of None \<Rightarrow> None | Some s \<Rightarrow> output_shape ls s)"

section \<open>Training and evaluation\<close>

text \<open>
  \<^verbatim>\<open>model.fit\<close> and \<^verbatim>\<open>model.evaluate\<close> are calls into Keras. Their numerical
  work, one parameter update on a batch (\<open>train_step\<close>) and the computation of loss
  and accuracy over batches (\<open>test_step\<close>), is a parameter here. What is modelled is
  what the calls of the notebook make Keras do with the data: which batches reach which
  step, in which order, and when the call raises instead. The order is recorded as a
  list of events next to the weights; an evaluation event names the batches it was
  given.
\<close>

type_synonym metrics = "rat \<times> rat"

datatype 'b event =
    TrainStep nat 'b
  | ValidationEval nat "'b list" metrics
  | TestEval "'b list" metrics
  | Printed rat rat

record ('w, 'b) keras =
  train_step :: "'w \<Rightarrow> 'b \<Rightarrow> 'w"
  test_step :: "'w \<Rightarrow> 'b list \<Rightarrow> metrics"

type_synonym ('w, 'b) run = "'w \<times> 'b event list"

text \<open>
  The shape of a rank-3 tensor (none for a ragged one). The classifier is built for
  the input shape its first layer declares; a step on a batch with an image of another
  shape raises \<^verbatim>\<open>ValueError\<close>. The images of a split share one shape, that of
  the provider's image feature.
\<close>

definition tensor_shape :: "'a list list list \<Rightarrow> nat list option" where
  "tensor_shape t =
     (let w = (case t of [] \<Rightarrow> 0 | r # _ \<Rightarrow> length r);
          c = (case concat t of [] \<Rightarrow> 0 | x # _ \<Rightarrow> length x)
      in if list_all (\<lambda>r. length r = w) t \<and> list_all (\<lambda>x. length x = c) (concat t)
         then Some [length t, w, c] else None)"

definition model_accepts :: "layer list \<Rightarrow> ('a list list list \<times> 'l) list \<Rightarrow> bool" where
  "model_accepts m batch =
     list_all (\<lambda>s. case tensor_shape (fst s) of
                      None \<Rightarrow> False
                    | Some shape \<Rightarrow> output_shape m shape \<noteq> None) batch"

fun train_epoch ::
  "layer list \<Rightarrow> ('w, 'l sample list) keras \<Rightarrow> nat \<Rightarrow> 'l sample list list \<Rightarrow>
   ('w, 'l sample list) run \<Rightarrow> error + ('w, 'l sample list) run" where
  "train_epoch m k epoch [] st = Inr st"
| "train_epoch m k epoch (b # bs) (w, evs) =
     (if model_accepts m b
      then train_epoch m k epoch bs (train_step k w b, evs @ [TrainStep epoch b])
      else Inl ValueError)"

definition test_on ::
  "layer list \<Rightarrow> ('w, 'l sample list) keras \<Rightarrow> 'w \<Rightarrow> 'l sample list list \<Rightarrow> error + metrics" where
  "test_on m k w bs =
     (if list_all (model_accepts m) bs then Inr (test_step k w bs) else Inl ValueError)"

text \<open>
  Validation data passed to \<^verbatim>\<open>fit\<close> as a pair of tensors, with no batch size
  given, are evaluated in batches of 32 samples, the last one shorter when 32 does not
  divide their number.
\<close>

definition validation_batch_size :: nat where "validation_batch_size = 32"

text \<open>
  One epoch of \<^verbatim>\<open>fit\<close>: a new iteration over the training dataset (with the draws
  \<open>rs epoch\<close>), a training step per batch, then the evaluation of the validation data.
  An iteration that yields no batch at all in the first epoch leaves \<^verbatim>\<open>fit\<close> without
  training results, and it raises \<^verbatim>\<open>ValueError\<close>.
\<close>

definition fit_epoch ::
  "layer list \<Rightarrow> ('w, 'l sample list) keras \<Rightarrow> 'l sample list dataset \<Rightarrow> 'l sample list \<Rightarrow>
   (nat \<Rightarrow> draws) \<Rightarrow> ('w, 'l sample list) run \<Rightarrow> nat \<Rightarrow> error + ('w, 'l sample list) run" where
  "fit_epoch m k x val rs st epoch =
     (if epoch = 0 \<and> x (rs epoch) = [] then Inl ValueError
      else case train_epoch m k epoch (x (rs epoch)) st of
             Inl e \<Rightarrow> Inl e
           | Inr (w, evs) \<Rightarrow>
               (case test_on m k w (chunks validation_batch_size val) of
                  Inl e \<Rightarrow> Inl e
                | Inr mt \<Rightarrow>
                    Inr (w, evs @ [ValidationEval epoch (chunks validation_batch_size val) mt])))"

text \<open>\<^verbatim>\<open>for epoch in range(epochs)\<close>, leaving at the first epoch that raises.\<close>

primrec fit_loop ::
  "('s \<Rightarrow> nat \<Rightarrow> error + 's) \<Rightarrow> nat list \<Rightarrow> 's \<Rightarrow> error + 's" where
  "fit_loop f [] st = Inr st"
| "fit_loop f (epoch # epochs) st =
     (case f st epoch of Inl e \<Rightarrow> Inl e | Inr st' \<Rightarrow> fit_loop f epochs st')"

definition fit ::
  "layer list \<Rightarrow> ('w, 'l sample list) keras \<Rightarrow> 'l sample list dataset \<Rightarrow> nat \<Rightarrow> 'l sample list \<Rightarrow>
   (nat \<Rightarrow> draws) \<Rightarrow> ('w, 'l sample list) run \<Rightarrow> error + ('w, 'l sample list) run" where
  "fit m k x epochs val rs st = fit_loop (fit_epoch m k x val rs) [0..<epochs] st"

text \<open>
  \<^verbatim>\<open>test_loss, test_accuracy = model.evaluate(test_data)\<close>: one iteration over the
  dataset, its batches given to the evaluation step. Over no batch there are no two
  values to unpack.
\<close>

definition evaluate ::
  "layer list \<Rightarrow> ('w, 'l sample list) keras \<Rightarrow> 'l sample list dataset \<Rightarrow>
   ('w, 'l sample list) run \<Rightarrow> error + metrics \<times> ('w, 'l sample list) run" where
  "evaluate m k x st =
     (case st of (w, evs) \<Rightarrow>
        if x [] = [] then Inl ValueError
        else case test_on m k w (x []) of
               Inl e \<Rightarrow> Inl e
             | Inr mt \<Rightarrow> Inr (mt, (w, evs @ [TestEval (x []) mt])))"

text \<open>
  Closed forms used to state what \<open>fit\<close> does: the weights after a number of complete
  passes, each pass being a new iteration over the training dataset, and the events of
  one epoch.
\<close>

primrec weights_after ::
  "('w, 'b) keras \<Rightarrow> 'b dataset \<Rightarrow> (nat \<Rightarrow> draws) \<Rightarrow> 'w \<Rightarrow> nat \<Rightarrow> 'w" where
  "weights_after k x rs w0 0 = w0"
| "weights_after k x rs w0 (Suc e) = foldl (train_step k) (weights_after k x rs w0 e) (x (rs e))"

definition epoch_events ::
  "('w, 'l sample list) keras \<Rightarrow> 'l sample list dataset \<Rightarrow> 'l sample list \<Rightarrow> (nat \<Rightarrow> draws) \<Rightarrow>
   'w \<Rightarrow> nat \<Rightarrow> 'l sample list event list" where
  "epoch_events k x val rs w0 e =
     map (TrainStep e) (x (rs e)) @
     [ValidationEval e (chunks validation_batch_size val)
        (test_step k (weights_after k x rs w0 (Suc e)) (chunks validation_batch_size val))]"

text \<open>Recognisers for the two kinds of evaluation events.\<close>

fun is_validation :: "'b event \<Rightarrow> bool" where
  "is_validation (ValidationEval e bs m) = True"
| "is_validation _ = False"

fun is_test :: "'b event \<Rightarrow> bool" where
  "is_test (TestEval bs m) = True"
| "is_test _ = False"

text \<open>
  The whole notebook, from the provider's two splits and their example counts to the
  final weights and the events in the order they happen.
  \<^verbatim>\<open>
  model.fit(train_data, epochs=NUM_EPOCHS,
            validation_data=(validation_inputs, validation_targets), verbose=2)
  test_loss, test_accuracy = model.evaluate(test_data)
  print(... .format(test_loss, test_accuracy*100.))
  \<close>
\<close>

definition notebook ::
  "'l raw_sample list \<Rightarrow> 'l raw_sample list \<Rightarrow> nat \<Rightarrow> nat \<Rightarrow>
   ('w, 'l sample list) keras \<Rightarrow> 'w \<Rightarrow> draws \<Rightarrow> (nat \<Rightarrow> draws) \<Rightarrow>
   error + ('w, 'l sample list) run" where
  "notebook mnist_train mnist_test train_examples test_examples k w0 rv rs =
     (case preprocess mnist_train mnist_test train_examples test_examples rv of
        Inl e \<Rightarrow> Inl e
      | Inr p \<Rightarrow>
          (case fit model k (train_batches p) NUM_EPOCHS (validation_inputs_targets p) rs
                  (w0, []) of
             Inl e \<Rightarrow> Inl e
           | Inr st \<Rightarrow>
               (case evaluate model k (test_batches p) st of
                  Inl e \<Rightarrow> Inl e
                | Inr ((test_loss, test_accuracy), (w, evs)) \<Rightarrow>
                    Inr (w, evs @ [Printed test_loss (float64 (test_accuracy * 100))]))))"

section \<open>Rounding\<close>

lemma bit_length_nonneg: "0 \<le> bit_length n"
proof (induction n rule: bit_length.induct)
  case (1 n)
  then show ?case by (subst bit_length.simps) auto
qed

lemma bit_length_one: "bit_length 1 = 1"
  by (simp add: bit_length.simps)

lemma bit_length_le: "n < 2 ^ k \<Longrightarrow> bit_length n \<le> int k"
proof (induction k arbitrary: n)
  case 0
  then show ?case by (simp add: bit_length.simps)
next
  case (Suc k)
  show ?case
  proof (cases "n \<le> 0")
    case True
    then show ?thesis by (simp add: bit_length.simps)
  next
    case False
    have "n div 2 < 2 ^ k" using Suc.prems by simp
    then have "bit_length (n div 2) \<le> int k" by (rule Suc.IH)
    then show ?thesis using False by (subst bit_length.simps) simp
  qed
qed

lemma pow2_pos: "0 < pow2 e"
  by (simp add: pow2_def)

lemma pow2_nonpos: "e \<le> 0 \<Longrightarrow> pow2 e = 1 / of_int (2 ^ nat (- e))"
  by (auto simp: pow2_def)

lemma round_half_even_nonneg: "0 \<le> x \<Longrightarrow> 0 \<le> round_half_even x"
  by (auto simp: round_half_even_def Let_def)

lemma round_half_even_le:
  assumes "x \<le> of_int n"
  shows "round_half_even x \<le> n"
proof -
  have f: "\<lfloor>x\<rfloor> \<le> n" using assms by (simp add: floor_le_iff)
  show ?thesis
  proof (cases "\<lfloor>x\<rfloor> = n")
    case True
    then have "x - of_int \<lfloor>x\<rfloor> \<le> 0" using assms by simp
    then show ?thesis using True by (auto simp: round_half_even_def Let_def)
  next
    case False
    then have "\<lfloor>x\<rfloor> + 1 \<le> n" using f by simp
    then show ?thesis using f by (auto simp: round_half_even_def Let_def)
  qed
qed

lemma round_half_even_of_int: "round_half_even (of_int n) = n"
  by (simp add: round_half_even_def)

lemma binade_unit:
  assumes "\<bar>x\<bar> \<le> 1" "emin \<le> 0"
  shows "binade emin x \<le> 0"
proof (cases "1 \<le> \<bar>x\<bar>")
  case True
  then have "\<bar>x\<bar> = 1" using assms by simp
  then show ?thesis using assms by (auto simp: binade_def bit_length_one)
next
  case False
  then show ?thesis using assms bit_length_nonneg [of "\<lceil>1 / \<bar>x\<bar>\<rceil> - 1"]
    by (auto simp: binade_def)
qed

text \<open>Rounding never leaves the unit interval: 0 and 1 are values of every format.\<close>

lemma round_binary_unit:
  assumes "0 \<le> x" "x \<le> 1" "emin \<le> 0" "0 < p"
  shows "0 \<le> round_binary p emin x \<and> round_binary p emin x \<le> 1"
proof -
  define k where "k = binade emin x - int p + 1"
  define n :: int where "n = 2 ^ nat (- k)"
  have "binade emin x \<le> 0" using assms by (intro binade_unit) auto
  then have k: "k \<le> 0" using assms by (simp add: k_def)
  have u: "pow2 k = 1 / of_int n" unfolding n_def using k by (rule pow2_nonpos)
  have npos: "0 < n" by (simp add: n_def)
  have "x / pow2 k = x * of_int n" by (simp add: u)
  also have "\<dots> \<le> of_int n" using assms npos by (simp add: mult_left_le_one_le)
  finally have "round_half_even (x / pow2 k) \<le> n" by (rule round_half_even_le)
  then have up: "(of_int (round_half_even (x / pow2 k)) :: rat) \<le> of_int n" by simp
  have "0 \<le> x / pow2 k" using assms pow2_pos [of k] by simp
  then have lo: "0 \<le> round_half_even (x / pow2 k)" by (rule round_half_even_nonneg)
  have "round_binary p emin x = of_int (round_half_even (x / pow2 k)) / of_int n"
    by (simp add: round_binary_def Let_def k_def [symmetric] u)
  then show ?thesis using lo up npos by (simp add: divide_le_eq)
qed

lemma float32_unit: "0 \<le> x \<Longrightarrow> x \<le> 1 \<Longrightarrow> 0 \<le> float32 x \<and> float32 x \<le> 1"
  unfolding float32_def by (rule round_binary_unit) auto

text \<open>An integer that fits the significand is a value of the format: rounding keeps it.\<close>

lemma round_binary_exact:
  assumes "0 \<le> n" "n < 2 ^ p" "emin \<le> 0" "0 < p"
  shows "round_binary p emin (of_int n) = of_int n"
proof -
  define k where "k = binade emin (of_int n) - int p + 1"
  define d :: int where "d = 2 ^ nat (- k)"
  have "bit_length n \<le> int p" using assms(2) by (rule bit_length_le)
  then have "binade emin (of_int n) \<le> int p - 1"
    using assms by (auto simp: binade_def)
  then have k: "k \<le> 0" by (simp add: k_def)
  have u: "pow2 k = 1 / of_int d" unfolding d_def using k by (rule pow2_nonpos)
  have dpos: "0 < d" by (simp add: d_def)
  have "(of_int n :: rat) / pow2 k = of_int (n * d)" by (simp add: u)
  then have "round_half_even (of_int n / pow2 k) = n * d"
    by (simp only: round_half_even_of_int)
  then have "round_binary p emin (of_int n) = of_int (n * d) * (1 / of_int d)"
    by (simp add: round_binary_def Let_def k_def [symmetric] u)
  then show ?thesis using dpos by simp
qed

lemma float32_byte:
  assumes "n < 256"
  shows "float32 (of_nat n) = of_nat n"
proof -
  have "int n < 2 ^ 24" using assms by simp
  then have "round_binary 24 (- 126) (of_int (int n)) = of_int (int n)"
    by (intro round_binary_exact) auto
  then show ?thesis by (simp add: float32_def)
qed

lemma unat_pixel: "unat (p :: pixel) < 256"
  using unsigned_less [of p, where 'a = nat] by simp

lemma float32_unsigned: "float32 (unsigned (p :: pixel)) = unsigned p"
  using float32_byte [OF unat_pixel, of p] by simp

lemma float32_255: "float32 255 = 255"
proof -
  have "round_binary 24 (- 126) (of_int 255) = of_int 255"
    by (intro round_binary_exact) auto
  then show ?thesis by (simp add: float32_def)
qed

section \<open>The scale function\<close>

lemma elements_map: "elements (map (map (map f)) t) = map f (elements t)"
  by (simp add: elements_def map_concat)

lemma scale_elements:
  "elements (fst (scale (img, label))) =
   map (\<lambda>p. float32 (of_nat (unat p) / 255)) (elements img)"
  by (simp add: tf_cast_float32_def tf_divide_def elements_map float32_unsigned float32_255
      comp_def)

lemma byte_quotient_unit:
  assumes "n < 256"
  shows "0 \<le> (of_nat n :: rat) / 255 \<and> (of_nat n :: rat) / 255 \<le> 1"
proof -
  have "n \<le> 255" using assms by simp
  then have "(of_nat n :: rat) \<le> of_nat 255" by (simp only: of_nat_le_iff)
  then show ?thesis by simp
qed

lemma pixel_quotient_unit:
  "0 \<le> (of_nat (unat (p :: pixel)) :: rat) / 255 \<and> (of_nat (unat p) :: rat) / 255 \<le> 1"
  using unat_pixel by (rule byte_quotient_unit)

text \<open>
  Claim C1. For every image of unsigned bytes (intensities 0..255), \<open>scale\<close> returns the
  image whose elements are the binary32 quotients of the intensities by 255, and every
  element of the returned image lies between 0 and 1.
\<close>

theorem scale_normalizes:
  "elements (fst (scale (img, label))) =
     map (\<lambda>p. float32 (of_nat (unat p) / 255)) (elements img)
   \<and> (\<forall>x \<in> set (elements (fst (scale (img, label)))). 0 \<le> x \<and> x \<le> 1)"
proof
  show "elements (fst (scale (img, label))) =
      map (\<lambda>p. float32 (of_nat (unat p) / 255)) (elements img)"
    by (rule scale_elements)
  show "\<forall>x \<in> set (elements (fst (scale (img, label)))). 0 \<le> x \<and> x \<le> 1"
    unfolding scale_elements using pixel_quotient_unit float32_unit by auto
qed

theorem scale_normalizes_witness:
  "0 \<le> hd (elements (fst (scale ([[[128], [255]]], 5 :: int))))
   \<and> hd (elements (fst (scale ([[[128], [255]]], 5 :: int)))) \<le> 1"
proof -
  have "hd (elements (fst (scale ([[[128], [255]]], 5 :: int))))
      \<in> set (elements (fst (scale ([[[128], [255]]], 5 :: int))))"
    unfolding scale_elements by (simp add: elements_def)
  then show ?thesis
    using scale_normalizes [of "[[[128], [255]]]" "5 :: int"] by blast
qed

text \<open>
  Claim C9. \<open>scale\<close> changes only the image: the label of the returned pair is the label
  of the input pair.
\<close>

theorem scale_keeps_label: "snd (scale (img, label)) = label"
  by (simp add: Let_def)

section \<open>The layers of the classifier\<close>

text \<open>
  Claim C4. The classifier is the sequence of exactly four layers: a Flatten layer with
  input shape (28, 28, 1), two Dense layers of 50 units with relu activation and a Dense
  layer of 10 units with softmax activation; an image of that shape is flattened to 784
  values and mapped to a vector of 10.
\<close>

theorem model_layers:
  "model = [Flatten [28, 28, 1], Dense 50 Relu, Dense 50 Relu, Dense 10 Softmax]
   \<and> layer_output_shape (hd model) [28, 28, 1] = Some [input_size]
   \<and> output_shape model [28, 28, 1] = Some [10]"
  by (simp add: model_def hidden_layer_size_def output_size_def input_size_def)

section \<open>Shuffling and batching\<close>

text \<open>An iteration over a shuffled dataset yields every element once: it is a permutation.\<close>

lemma length_shuffle_emit:
  "(buffer = [] \<Longrightarrow> rest = []) \<Longrightarrow>
   length (shuffle_emit rs buffer rest) = length buffer + length rest"
proof (induction rs buffer rest rule: shuffle_emit.induct)
  case (1 rs buffer rest)
  show ?case
  proof (cases "buffer = []")
    case True
    then show ?thesis using "1.prems" by (simp add: shuffle_emit.simps)
  next
    case False
    define i where "i = (case rs of [] \<Rightarrow> 0 | r # _ \<Rightarrow> r mod length buffer)"
    have i: "i < length buffer" using False unfolding i_def by (cases rs) auto
    show ?thesis
    proof (cases rest)
      case Nil
      have "length (shuffle_emit (tl rs) (take i buffer @ drop (Suc i) buffer) []) =
          length (take i buffer @ drop (Suc i) buffer) + length ([] :: 'a list)"
        using "1.IH"(1) [OF False i_def Nil] by simp
      then show ?thesis using False Nil i
        by (subst shuffle_emit.simps) (simp add: i_def [symmetric] Let_def)
    next
      case (Cons y ys)
      have "length (shuffle_emit (tl rs) (buffer[i := y]) ys) = length (buffer[i := y]) + length ys"
        using "1.IH"(2) [OF False i_def Cons] False by auto
      then show ?thesis using False Cons
        by (subst shuffle_emit.simps) (simp add: i_def [symmetric] Let_def)
    qed
  qed
qed

lemma mset_shuffle_emit:
  "(buffer = [] \<Longrightarrow> rest = []) \<Longrightarrow>
   mset (shuffle_emit rs buffer rest) = mset buffer + mset rest"
proof (induction rs buffer rest rule: shuffle_emit.induct)
  case (1 rs buffer rest)
  show ?case
  proof (cases "buffer = []")
    case True
    then show ?thesis using "1.prems" by (simp add: shuffle_emit.simps)
  next
    case False
    define i where "i = (case rs of [] \<Rightarrow> 0 | r # _ \<Rightarrow> r mod length buffer)"
    have i: "i < length buffer" using False unfolding i_def by (cases rs) auto
    have split: "buffer = take i buffer @ buffer ! i # drop (Suc i) buffer"
      using i by (rule id_take_nth_drop)
    have m: "mset buffer = add_mset (buffer ! i) (mset (take i buffer @ drop (Suc i) buffer))"
      by (subst split) simp
    show ?thesis
    proof (cases rest)
      case Nil
      have "mset (shuffle_emit (tl rs) (take i buffer @ drop (Suc i) buffer) []) =
          mset (take i buffer @ drop (Suc i) buffer) + mset ([] :: 'a list)"
        using "1.IH"(1) [OF False i_def Nil] by simp
      then show ?thesis using False Nil m
        by (subst shuffle_emit.simps) (simp add: i_def [symmetric] Let_def)
    next
      case (Cons y ys)
      have u: "buffer[i := y] = take i buffer @ y # drop (Suc i) buffer"
        using i by (rule upd_conv_take_nth_drop)
      have "mset (shuffle_emit (tl rs) (buffer[i := y]) ys) = mset (buffer[i := y]) + mset ys"
        using "1.IH"(2) [OF False i_def Cons] False by auto
      then show ?thesis using False Cons m
        by (subst shuffle_emit.simps) (simp add: i_def [symmetric] Let_def u)
    qed
  qed
qed

lemma set_shuffle_emit:
  "(buffer = [] \<Longrightarrow> rest = []) \<Longrightarrow> set (shuffle_emit rs buffer rest) = set buffer \<union> set rest"
  using mset_shuffle_emit [of buffer rest rs, THEN arg_cong, of set_mset] by simp

lemma shuffle_emit_take_drop:
  assumes "0 < n"
  shows "mset (shuffle_emit rs (take n xs) (drop n xs)) = mset xs"
proof -
  have "take n xs = [] \<Longrightarrow> drop n xs = []" using assms by (cases xs) auto
  then have "mset (shuffle_emit rs (take n xs) (drop n xs)) = mset (take n xs) + mset (drop n xs)"
    by (rule mset_shuffle_emit)
  then show ?thesis by (simp flip: mset_append)
qed

text \<open>Batches are consecutive pieces of the sequence; they are full when the size divides the length.\<close>

lemma chunks_Nil: "chunks n [] = []"
  by (simp add: chunks.simps)

lemma chunks_step: "0 < n \<Longrightarrow> xs \<noteq> [] \<Longrightarrow> chunks n xs = take n xs # chunks n (drop n xs)"
  by (subst chunks.simps) simp

lemma concat_chunks: "0 < n \<Longrightarrow> concat (chunks n xs) = xs"
proof (induction n xs rule: chunks.induct)
  case (1 n xs)
  show ?case
  proof (cases "xs = []")
    case True
    then show ?thesis by (simp add: chunks_Nil)
  next
    case False
    have ih: "concat (chunks n (drop n xs)) = drop n xs"
      using "1.IH" "1.prems" False by simp
    have "concat (chunks n xs) = take n xs @ concat (chunks n (drop n xs))"
      by (simp only: chunks_step [OF "1.prems" False] concat.simps)
    then show ?thesis by (simp only: ih append_take_drop_id)
  qed
qed

lemma chunks_exact:
  "0 < n \<Longrightarrow> length xs = m * n \<Longrightarrow>
   length (chunks n xs) = m \<and> (\<forall>b \<in> set (chunks n xs). length b = n)"
proof (induction m arbitrary: xs)
  case 0
  then show ?case by (simp add: chunks_Nil)
next
  case (Suc m)
  then have ne: "xs \<noteq> []" by auto
  have "length (drop n xs) = m * n" using Suc.prems by simp
  then have ih: "length (chunks n (drop n xs)) = m \<and> (\<forall>b \<in> set (chunks n (drop n xs)). length b = n)"
    using Suc.IH Suc.prems(1) by blast
  have t: "length (take n xs) = n" using Suc.prems by simp
  have "chunks n xs = take n xs # chunks n (drop n xs)"
    using Suc.prems(1) ne by (rule chunks_step)
  then show ?case using ih t by simp
qed

lemma chunks_single:
  assumes "0 < n" "xs \<noteq> []" "length xs \<le> n"
  shows "chunks n xs = [xs]"
proof -
  have "chunks n xs = take n xs # chunks n (drop n xs)"
    using assms(1,2) by (rule chunks_step)
  then show ?thesis using assms(3) by (simp add: chunks_Nil)
qed

section \<open>The sample counts of MNIST\<close>

lemma tenth_60000: "float32 (float64 (float64 (1 / 10) * float64 60000)) = 6000"
  by code_simp

lemma num_validation_samples_mnist: "num_validation_samples 60000 = 6000"
  by (simp add: num_validation_samples_def tenth_60000 trunc_def)

section \<open>The preprocessing cell\<close>

lemma shuffled_is_order:
  "shuffled_train_and_validation_data mnist_train = Inr (shuffled_order mnist_train)"
  by (simp add: shuffled_train_and_validation_data_def dataset_shuffle_def BUFFER_SIZE_def
      scaled_train_and_validation_data_def dataset_map_def from_split_def shuffled_order_def
      fun_eq_iff)

lemma mset_shuffled_order: "mset (shuffled_order mnist_train rs) = mset (map scale mnist_train)"
  unfolding shuffled_order_def by (rule shuffle_emit_take_drop) (simp add: BUFFER_SIZE_def)

lemma length_shuffled_order: "length (shuffled_order mnist_train rs) = length mnist_train"
  using mset_shuffled_order [of mnist_train rs, THEN arg_cong, of size] by simp

lemma set_shuffled_order: "set (shuffled_order mnist_train rs) = scale ` set mnist_train"
  using mset_shuffled_order [of mnist_train rs, THEN arg_cong, of set_mset] by simp

lemma first_batch_single: "first_batch [b] = Inr b"
  by (simp add: first_batch_def)

lemma preprocess_closed:
  assumes "0 < num_validation_samples train_examples" "0 < test_examples" "mnist_train \<noteq> []"
  shows "preprocess mnist_train mnist_test train_examples test_examples rv =
    Inr \<lparr>train_batches =
           (\<lambda>rs. chunks BATCH_SIZE
              (drop (num_validation_samples train_examples) (shuffled_order mnist_train rs))),
         validation_inputs_targets =
           take (num_validation_samples train_examples) (shuffled_order mnist_train rv),
         test_batches = (\<lambda>rs. chunks test_examples (map scale mnist_test))\<rparr>"
proof -
  let ?n = "num_validation_samples train_examples"
  have "shuffled_order mnist_train rv \<noteq> []"
    using assms(3) length_shuffled_order [of mnist_train rv] by auto
  then have ne: "take ?n (shuffled_order mnist_train rv) \<noteq> []"
    using assms(1) by simp
  have "chunks ?n (take ?n (shuffled_order mnist_train rv)) = [take ?n (shuffled_order mnist_train rv)]"
    using assms(1) ne by (rule chunks_single) simp
  then have fb: "first_batch (chunks ?n (take ?n (shuffled_order mnist_train rv))) =
      Inr (take ?n (shuffled_order mnist_train rv))"
    by (simp only: first_batch_single)
  show ?thesis
    using assms(1,2)
    by (simp add: preprocess_def Let_def shuffled_is_order dataset_batch_def BATCH_SIZE_def
        train_data_def validation_data_def dataset_take_def dataset_skip_def fb
        num_test_samples_def dataset_map_def from_split_def)
qed

text \<open>
  Claim C10. For the MNIST train split of 60000 examples the number of validation
  samples, the truncation of 0.1 times the count, is 6000; preprocessing succeeds and every
  iteration over the training dataset yields the remaining 54000 samples as exactly 540
  batches of exactly 100 samples each, with no shorter last batch.
\<close>

theorem mnist_training_batches:
  assumes "length mnist_train = 60000"
  shows "num_validation_samples 60000 = 6000
    \<and> (\<exists>p. preprocess mnist_train mnist_test 60000 10000 rv = Inr p
          \<and> length (concat (train_batches p rs)) = 54000
          \<and> length (train_batches p rs) = 540
          \<and> (\<forall>b \<in> set (train_batches p rs). length b = 100))"
proof -
  let ?rest = "drop 6000 (shuffled_order mnist_train rs)"
  have ne: "mnist_train \<noteq> []" using assms by auto
  have p: "preprocess mnist_train mnist_test 60000 10000 rv =
    Inr \<lparr>train_batches = (\<lambda>rs. chunks BATCH_SIZE (drop 6000 (shuffled_order mnist_train rs))),
         validation_inputs_targets = take 6000 (shuffled_order mnist_train rv),
         test_batches = (\<lambda>rs. chunks 10000 (map scale mnist_test))\<rparr>"
    using preprocess_closed [of 60000 10000 mnist_train mnist_test rv] ne
    by (simp add: num_validation_samples_mnist)
  have len: "length ?rest = 540 * 100"
    using assms by (simp add: length_shuffled_order)
  have ex: "length (chunks 100 ?rest) = 540 \<and> (\<forall>b \<in> set (chunks 100 ?rest). length b = 100)"
    using len by (intro chunks_exact) auto
  have "concat (chunks 100 ?rest) = ?rest" by (rule concat_chunks) simp
  then have "length (concat (chunks 100 ?rest)) = 54000" using len by simp
  then show ?thesis using p ex by (simp add: num_validation_samples_mnist BATCH_SIZE_def)
qed

theorem mnist_training_batches_witness:
  "\<exists>p. preprocess (replicate 60000 ([[[0]]], 0 :: nat)) [] 60000 10000 [] = Inr p
      \<and> length (train_batches p []) = 540"
  using mnist_training_batches [of "replicate 60000 ([[[0]]], 0 :: nat)" "[]" "[]" "[]"]
  by auto

lemma BATCH_SIZE_pos: "0 < BATCH_SIZE"
  by (simp add: BATCH_SIZE_def)

section \<open>Validation and training partitions\<close>

lemma shuffle_emit_first:
  "hd (shuffle_emit [] (b0 # buffer) rest) = b0"
  by (subst shuffle_emit.simps) (simp add: Let_def split: list.split)

lemma shuffle_emit_hold:
  "m \<le> length rest \<Longrightarrow>
   \<exists>b' bs'. drop m (shuffle_emit (replicate m 1 @ ds) (b0 # b1 # bs) rest) =
     shuffle_emit ds (b0 # b' # bs') (drop m rest)"
proof (induction m arbitrary: b1 rest)
  case 0
  then show ?case by auto
next
  case (Suc m)
  then obtain y ys where rest: "rest = y # ys" by (cases rest) auto
  have one: "Suc 0 mod Suc (Suc (length bs)) = Suc 0" by simp
  have step: "shuffle_emit (replicate (Suc m) 1 @ ds) (b0 # b1 # bs) rest =
      b1 # shuffle_emit (replicate m 1 @ ds) (b0 # y # bs) ys"
    by (subst shuffle_emit.simps) (simp add: rest Let_def one)
  have "m \<le> length ys" using Suc.prems rest by simp
  then obtain b' bs' where ih:
    "drop m (shuffle_emit (replicate m 1 @ ds) (b0 # y # bs) ys) =
       shuffle_emit ds (b0 # b' # bs') (drop m ys)"
    using Suc.IH by blast
  have "drop (Suc m) (shuffle_emit (replicate (Suc m) 1 @ ds) (b0 # b1 # bs) rest) =
      drop m (shuffle_emit (replicate m 1 @ ds) (b0 # y # bs) ys)"
    by (simp only: step drop_Suc_Cons)
  also have "\<dots> = shuffle_emit ds (b0 # b' # bs') (drop (Suc m) rest)"
    by (simp only: ih rest drop_Suc_Cons)
  finally show ?case by blast
qed

lemma shuffle_emit_held_first:
  assumes "m \<le> length rest"
  shows "hd (drop m (shuffle_emit (replicate m 1) (b0 # b1 # bs) rest)) = b0"
proof -
  obtain b' bs' where
    "drop m (shuffle_emit (replicate m 1 @ []) (b0 # b1 # bs) rest) =
       shuffle_emit [] (b0 # b' # bs') (drop m rest)"
    using shuffle_emit_hold [OF assms] by blast
  then show ?thesis by (simp add: shuffle_emit_first)
qed

lemma same_order_partition:
  "validation_data n shuffled rs @ train_data n shuffled rs = shuffled rs
   \<and> (distinct (shuffled rs) \<longrightarrow>
        set (validation_data n shuffled rs) \<inter> set (train_data n shuffled rs) = {})"
  by (simp add: validation_data_def train_data_def dataset_take_def dataset_skip_def
      set_take_disj_set_drop_if_distinct)

text \<open>
  Claim C2. Within one iteration the first num_validation_samples elements and the rest
  are complementary (lemma \<open>same_order_partition\<close>). The notebook, however, takes the
  validation batch from one iteration and the training batches from others, each with its
  own shuffle: for every MNIST-sized train split there are draws for which the first
  sample of the split is in the validation inputs and also in the first training batch.
\<close>

theorem validation_sample_in_training:
  assumes "length mnist_train = 60000"
  shows "\<exists>p. preprocess mnist_train mnist_test 60000 10000 [] = Inr p
     \<and> scale (hd mnist_train) \<in> set (validation_inputs_targets p)
     \<and> scale (hd mnist_train) \<in> set (hd (train_batches p (replicate 6000 1)))"
proof -
  define xs where "xs = map scale mnist_train"
  define buffer where "buffer = take BUFFER_SIZE xs"
  define rest where "rest = drop BUFFER_SIZE xs"
  have lb: "length buffer = 10000" and lr: "length rest = 50000"
    using assms by (simp_all add: buffer_def rest_def xs_def BUFFER_SIZE_def)
  obtain b1 bs where buf: "buffer = scale (hd mnist_train) # b1 # bs"
  proof -
    obtain a as where tr: "mnist_train = a # as" using assms by (cases mnist_train) auto
    then obtain c cs where "as = c # cs" using assms by (cases as) auto
    then have "buffer = scale (hd mnist_train) # scale c # take 9998 (map scale cs)"
      using tr by (simp add: buffer_def xs_def BUFFER_SIZE_def)
    then show ?thesis using that by blast
  qed
  have order: "shuffled_order mnist_train rs = shuffle_emit rs buffer rest" for rs
    by (simp add: shuffled_order_def buffer_def rest_def xs_def)
  have ne: "mnist_train \<noteq> []" using assms by auto
  have p: "preprocess mnist_train mnist_test 60000 10000 [] =
    Inr \<lparr>train_batches = (\<lambda>rs. chunks BATCH_SIZE (drop 6000 (shuffled_order mnist_train rs))),
         validation_inputs_targets = take 6000 (shuffled_order mnist_train []),
         test_batches = (\<lambda>rs. chunks 10000 (map scale mnist_test))\<rparr>"
    using preprocess_closed [of 60000 10000 mnist_train mnist_test "[]"] ne
    by (simp add: num_validation_samples_mnist)
  have lo: "length (shuffled_order mnist_train rs) = 60000" for rs
    using assms by (simp add: length_shuffled_order)
  \<comment> \<open>the validation iteration emits the first sample first\<close>
  have "hd (shuffled_order mnist_train []) = scale (hd mnist_train)"
    by (simp add: order buf shuffle_emit_first)
  moreover have "take 6000 (shuffled_order mnist_train []) \<noteq> []"
    using lo [of "[]"] by auto
  ultimately have v: "scale (hd mnist_train) \<in> set (take 6000 (shuffled_order mnist_train []))"
    using hd_in_set [of "take 6000 (shuffled_order mnist_train [])"] by (simp add: hd_take)
  \<comment> \<open>a training iteration whose first 6000 draws avoid slot 0 emits it right after them\<close>
  let ?tr = "drop 6000 (shuffled_order mnist_train (replicate 6000 1))"
  have h: "hd ?tr = scale (hd mnist_train)"
    using shuffle_emit_held_first [of 6000 rest "scale (hd mnist_train)" b1 bs] lr
    by (simp add: order buf)
  have ltr: "length ?tr = 54000" using lo [of "replicate 6000 1"] by simp
  then have trne: "?tr \<noteq> []" by auto
  have "chunks BATCH_SIZE ?tr = take BATCH_SIZE ?tr # chunks BATCH_SIZE (drop BATCH_SIZE ?tr)"
    using BATCH_SIZE_pos trne by (rule chunks_step)
  then have "hd (chunks BATCH_SIZE ?tr) = take BATCH_SIZE ?tr" by simp
  moreover have "hd (take BATCH_SIZE ?tr) = hd ?tr"
    using BATCH_SIZE_pos by (simp add: hd_take)
  moreover have "take BATCH_SIZE ?tr \<noteq> []" using trne BATCH_SIZE_pos by simp
  ultimately have t: "scale (hd mnist_train) \<in> set (hd (chunks BATCH_SIZE ?tr))"
    using h hd_in_set [of "take BATCH_SIZE ?tr"] by simp
  show ?thesis using p v t by simp
qed

theorem validation_sample_in_training_witness:
  "\<exists>p. preprocess (map (\<lambda>i. (replicate 28 (replicate 28 [of_nat i]), i mod 10)) [0..<60000]) []
          60000 10000 [] = Inr p
     \<and> scale (hd (map (\<lambda>i. (replicate 28 (replicate 28 [of_nat i]), i mod 10)) [0..<60000]))
          \<in> set (validation_inputs_targets p)
     \<and> scale (hd (map (\<lambda>i. (replicate 28 (replicate 28 [of_nat i]), i mod 10)) [0..<60000]))
          \<in> set (hd (train_batches p (replicate 6000 1)))"
proof -
  have "length (map (\<lambda>i. (replicate 28 (replicate 28 [of_nat i :: pixel]), i mod 10)) [0..<60000])
      = 60000"
    by (simp only: length_map length_upt diff_zero)
  then show ?thesis by (rule validation_sample_in_training)
qed

section \<open>Scaling is injective\<close>

lemma round_half_even_near: "\<bar>of_int (round_half_even x) - x\<bar> \<le> 1 / 2"
proof -
  have "of_int \<lfloor>x\<rfloor> \<le> x" and "x < of_int \<lfloor>x\<rfloor> + 1" by linarith+
  then show ?thesis by (auto simp: round_half_even_def Let_def abs_le_iff)
qed

lemma pow2_mono: "a \<le> b \<Longrightarrow> b \<le> 0 \<Longrightarrow> pow2 a \<le> pow2 b"
proof -
  assume ab: "a \<le> b" and b: "b \<le> 0"
  have "nat (- b) \<le> nat (- a)" using ab by simp
  then have "(2::rat) ^ nat (- b) \<le> 2 ^ nat (- a)" by (intro power_increasing) auto
  then have "1 / (2::rat) ^ nat (- a) \<le> 1 / 2 ^ nat (- b)" by (simp add: frac_le)
  moreover have "pow2 a = 1 / 2 ^ nat (- a)" using ab b by (auto simp: pow2_def)
  moreover have "pow2 b = 1 / 2 ^ nat (- b)" using b by (auto simp: pow2_def)
  ultimately show ?thesis by simp
qed

lemma float32_unit_error:
  assumes "0 \<le> x" "x \<le> 1"
  shows "\<bar>float32 x - x\<bar> \<le> 1 / 2 ^ 24"
proof -
  define k where "k = binade (- 126) x - 23"
  have "binade (- 126) x \<le> 0" using assms by (intro binade_unit) auto
  then have k: "k \<le> - 23" by (simp add: k_def)
  have u: "pow2 k \<le> 1 / 2 ^ 23"
    using pow2_mono [OF k] by (simp add: pow2_def)
  have pos: "0 < pow2 k" by (rule pow2_pos)
  have "float32 x = of_int (round_half_even (x / pow2 k)) * pow2 k"
    by (simp add: float32_def round_binary_def Let_def k_def)
  then have "float32 x - x = (of_int (round_half_even (x / pow2 k)) - x / pow2 k) * pow2 k"
    using pos by (simp add: algebra_simps)
  then have "\<bar>float32 x - x\<bar> = \<bar>of_int (round_half_even (x / pow2 k)) - x / pow2 k\<bar> * pow2 k"
    using pos by (simp add: abs_mult)
  also have "\<dots> \<le> 1 / 2 * pow2 k"
    using round_half_even_near [of "x / pow2 k"] pos by (intro mult_right_mono) auto
  also have "\<dots> \<le> 1 / 2 * (1 / 2 ^ 23)" using u by simp
  finally show ?thesis by simp
qed

lemma scaled_byte_inj:
  assumes "a < 256" "b < 256" "float32 (of_nat a / 255) = float32 (of_nat b / 255)"
  shows "a = b"
proof (rule ccontr)
  assume "a \<noteq> b"
  then have "1 \<le> \<bar>int a - int b\<bar>" by simp
  then have "(1::rat) \<le> \<bar>of_int (int a - int b)\<bar>" by (simp only: of_int_abs [symmetric] of_int_1_le_iff)
  then have far: "1 / 255 \<le> \<bar>(of_nat a :: rat) / 255 - of_nat b / 255\<bar>"
    by (simp add: diff_divide_distrib [symmetric])
  have ea: "\<bar>float32 (of_nat a / 255) - of_nat a / 255\<bar> \<le> 1 / 2 ^ 24"
    using byte_quotient_unit [OF assms(1)] by (intro float32_unit_error) auto
  have eb: "\<bar>float32 (of_nat b / 255) - of_nat b / 255\<bar> \<le> 1 / 2 ^ 24"
    using byte_quotient_unit [OF assms(2)] by (intro float32_unit_error) auto
  have "\<bar>(of_nat a :: rat) / 255 - of_nat b / 255\<bar> \<le> 1 / 2 ^ 24 + 1 / 2 ^ 24"
    using ea eb assms(3) by linarith
  then show False using far by simp
qed

lemma scaled_pixel_inj: "inj (\<lambda>p :: pixel. float32 (of_nat (unat p) / 255))"
proof (rule injI)
  fix p q :: pixel
  assume "float32 (of_nat (unat p) / 255) = float32 (of_nat (unat q) / 255)"
  then have "unat p = unat q" using unat_pixel unat_pixel by (rule scaled_byte_inj [rotated 2])
  then show "p = q" by (simp add: word_unat_eq_iff)
qed

lemma scale_closed:
  "scale (img, label) = (map (map (map (\<lambda>p. float32 (of_nat (unat p) / 255)))) img, label)"
  by (simp add: tf_cast_float32_def tf_divide_def float32_unsigned float32_255 comp_def)

lemma inj_scale: "inj scale"
proof (rule injI)
  fix s t :: "image \<times> 'a"
  assume eq: "scale s = scale t"
  obtain i l where s: "s = (i, l)" by (cases s)
  obtain j m where t: "t = (j, m)" by (cases t)
  have "inj (map (map (map (\<lambda>p :: pixel. float32 (of_nat (unat p) / 255)))))"
    by (intro inj_mapI scaled_pixel_inj)
  then show "s = t" using eq unfolding s t scale_closed by (auto dest: injD)
qed

section \<open>Image shapes and the classifier's input\<close>

lemma tensor_shape_map:
  fixes t :: "'a list list list"
  shows "tensor_shape (map (map (map f)) t) = tensor_shape t"
proof -
  have c: "concat (map (map (map f)) t) = map (map f) (concat t)"
    by (simp add: map_concat)
  have w: "(case map (map (map f)) t of [] \<Rightarrow> 0 | r # _ \<Rightarrow> length r) =
      (case t of [] \<Rightarrow> 0 | r # _ \<Rightarrow> length r)"
    by (cases t) simp_all
  have "(case map (map f) xs of [] \<Rightarrow> 0 | x # _ \<Rightarrow> length x) =
      (case xs of [] \<Rightarrow> 0 | x # _ \<Rightarrow> length x)" for xs :: "'a list list"
    by (cases xs) simp_all
  then have d: "(case map (map f) (concat t) of [] \<Rightarrow> 0 | x # _ \<Rightarrow> length x) =
      (case concat t of [] \<Rightarrow> 0 | x # _ \<Rightarrow> length x)" .
  have l1: "list_all (\<lambda>r. length r = n) (map (map (map f)) t) = list_all (\<lambda>r. length r = n) t"
    for n by (simp add: list_all_iff)
  have l2: "list_all (\<lambda>x. length x = n) (map (map f) (concat t)) =
      list_all (\<lambda>x. length x = n) (concat t)" for n
    by (simp add: list_all_iff)
  show ?thesis
    by (simp only: tensor_shape_def Let_def c w d l1 l2 length_map)
qed

lemma scale_shape: "tensor_shape (fst (scale s)) = tensor_shape (fst s)"
proof -
  obtain img l where s: "s = (img, l)" by (cases s)
  show ?thesis unfolding s scale_closed by (simp add: tensor_shape_map)
qed

lemma output_shape_model:
  "output_shape model shape = (if shape = [28, 28, 1] then Some [output_size] else None)"
  by (simp add: model_def)

lemma model_accepts_iff:
  fixes batch :: "('a list list list \<times> 'l) list"
  shows "model_accepts model batch \<longleftrightarrow> (\<forall>s \<in> set batch. tensor_shape (fst s) = Some [28, 28, 1])"
proof -
  have "(case tensor_shape t of None \<Rightarrow> False | Some shape \<Rightarrow> output_shape model shape \<noteq> None)
      \<longleftrightarrow> tensor_shape t = Some [28, 28, 1]" for t :: "'a list list list"
    by (cases "tensor_shape t") (simp_all add: output_shape_model)
  then show ?thesis by (simp add: model_accepts_def list_all_iff)
qed

section \<open>The training loop\<close>

lemma set_chunks: "b \<in> set (chunks n xs) \<Longrightarrow> set b \<subseteq> set xs"
proof (induction n xs rule: chunks.induct)
  case (1 n xs)
  show ?case
  proof (cases "n = 0 \<or> xs = []")
    case True
    then show ?thesis using "1.prems" by (simp add: chunks.simps)
  next
    case False
    then have "chunks n xs = take n xs # chunks n (drop n xs)" by (simp add: chunks_step)
    then consider "b = take n xs" | "b \<in> set (chunks n (drop n xs))"
      using "1.prems" by auto
    then show ?thesis
    proof cases
      case 1
      then show ?thesis by (simp add: set_take_subset)
    next
      case 2
      then have "set b \<subseteq> set (drop n xs)" using "1.IH" False by blast
      then show ?thesis using set_drop_subset [of n xs] by blast
    qed
  qed
qed

lemma chunks_accepted:
  assumes "\<forall>s \<in> set xs. tensor_shape (fst s) = Some [28, 28, 1]"
  shows "list_all (model_accepts model) (chunks n xs)"
  unfolding list_all_iff model_accepts_iff
  using assms set_chunks by blast

lemma train_epoch_closed:
  "list_all (model_accepts m) bs \<Longrightarrow>
   train_epoch m k e bs (w, evs) = Inr (foldl (train_step k) w bs, evs @ map (TrainStep e) bs)"
  by (induction bs arbitrary: w evs) auto

lemma fit_epoch_closed:
  assumes "x (rs e) \<noteq> []"
    and "list_all (model_accepts m) (x (rs e))"
    and "list_all (model_accepts m) (chunks validation_batch_size val)"
  shows "fit_epoch m k x val rs (weights_after k x rs w0 e, evs) e =
    Inr (weights_after k x rs w0 (Suc e), evs @ epoch_events k x val rs w0 e)"
  using assms by (simp add: fit_epoch_def train_epoch_closed test_on_def epoch_events_def)

lemma fit_loop_append:
  "fit_loop f (es @ es') st =
   (case fit_loop f es st of Inl e \<Rightarrow> Inl e | Inr st' \<Rightarrow> fit_loop f es' st')"
  by (induction es arbitrary: st) (auto split: sum.splits)

lemma fit_closed:
  assumes "\<And>e. e < n \<Longrightarrow> x (rs e) \<noteq> [] \<and> list_all (model_accepts m) (x (rs e))"
    and "list_all (model_accepts m) (chunks validation_batch_size val)"
  shows "fit m k x n val rs (w0, evs) =
    Inr (weights_after k x rs w0 n, evs @ concat (map (epoch_events k x val rs w0) [0..<n]))"
  using assms(1)
proof (induction n)
  case 0
  then show ?case by (simp add: fit_def)
next
  case (Suc n)
  have ih: "fit m k x n val rs (w0, evs) =
      Inr (weights_after k x rs w0 n, evs @ concat (map (epoch_events k x val rs w0) [0..<n]))"
    using Suc.IH Suc.prems by simp
  have step: "fit_epoch m k x val rs
      (weights_after k x rs w0 n, evs @ concat (map (epoch_events k x val rs w0) [0..<n])) n =
    Inr (weights_after k x rs w0 (Suc n),
         (evs @ concat (map (epoch_events k x val rs w0) [0..<n])) @ epoch_events k x val rs w0 n)"
    using Suc.prems [of n] assms(2) by (intro fit_epoch_closed) auto
  have "fit m k x (Suc n) val rs (w0, evs) =
      (case fit m k x n val rs (w0, evs) of Inl e \<Rightarrow> Inl e
       | Inr st \<Rightarrow> fit_loop (fit_epoch m k x val rs) [n] st)"
    by (simp add: fit_def fit_loop_append)
  then show ?case by (simp add: ih step)
qed

lemma chunks_nonempty: "0 < n \<Longrightarrow> xs \<noteq> [] \<Longrightarrow> chunks n xs \<noteq> []"
  by (simp add: chunks_step)

lemma chunks_bounds:
  "0 < n \<Longrightarrow> b \<in> set (chunks n xs) \<Longrightarrow> 0 < length b \<and> length b \<le> n"
proof (induction n xs rule: chunks.induct)
  case (1 n xs)
  show ?case
  proof (cases "xs = []")
    case True
    then show ?thesis using "1.prems" by (simp add: chunks_Nil)
  next
    case False
    have "chunks n xs = take n xs # chunks n (drop n xs)"
      using "1.prems"(1) False by (rule chunks_step)
    then consider "b = take n xs" | "b \<in> set (chunks n (drop n xs))"
      using "1.prems"(2) by auto
    then show ?thesis
    proof cases
      case 1
      then show ?thesis using False "1.prems"(1) by simp
    next
      case 2
      then show ?thesis using "1.IH" "1.prems"(1) False by blast
    qed
  qed
qed

lemma chunks_lengths:
  "0 < r \<Longrightarrow> r < n \<Longrightarrow> length xs = q * n + r \<Longrightarrow>
   map length (chunks n xs) = replicate q n @ [r]"
proof (induction q arbitrary: xs)
  case 0
  then have "xs \<noteq> []" and "length xs \<le> n" by auto
  then have "chunks n xs = [xs]" using 0 by (intro chunks_single) auto
  then show ?case using 0 by simp
next
  case (Suc q)
  then have ne: "xs \<noteq> []" by auto
  have n: "0 < n" using Suc.prems by simp
  have "length (drop n xs) = q * n + r" using Suc.prems by simp
  then have ih: "map length (chunks n (drop n xs)) = replicate q n @ [r]"
    using Suc.IH Suc.prems by blast
  have "length (take n xs) = n" using Suc.prems by simp
  moreover have "chunks n xs = take n xs # chunks n (drop n xs)"
    using n ne by (rule chunks_step)
  ultimately show ?case using ih by simp
qed

lemma shuffled_order_shapes:
  assumes "\<forall>s \<in> set mnist_train. tensor_shape (fst s) = Some [28, 28, 1]"
  shows "\<forall>s \<in> set (shuffled_order mnist_train rs). tensor_shape (fst s) = Some [28, 28, 1]"
  using assms by (auto simp: set_shuffled_order scale_shape)

lemma prepared_fields:
  assumes "preprocess mnist_train mnist_test train_examples test_examples rv = Inr p"
    and "0 < num_validation_samples train_examples"
    and "0 < test_examples"
    and "mnist_train \<noteq> []"
  shows "train_batches p = (\<lambda>rs. chunks BATCH_SIZE
            (drop (num_validation_samples train_examples) (shuffled_order mnist_train rs)))"
    and "validation_inputs_targets p =
            take (num_validation_samples train_examples) (shuffled_order mnist_train rv)"
    and "test_batches p = (\<lambda>rs. chunks test_examples (map scale mnist_test))"
  using assms(1) preprocess_closed [OF assms(2,3,4), of mnist_test rv] by auto

lemma fit_prepared:
  assumes pre: "preprocess mnist_train mnist_test train_examples test_examples rv = Inr p"
    and nvs: "0 < num_validation_samples train_examples"
    and lt: "num_validation_samples train_examples < length mnist_train"
    and te: "0 < test_examples"
    and sh: "\<forall>s \<in> set mnist_train. tensor_shape (fst s) = Some [28, 28, 1]"
  shows "fit model k (train_batches p) n (validation_inputs_targets p) rs (w0, []) =
    Inr (weights_after k (train_batches p) rs w0 n,
         concat (map (epoch_events k (train_batches p) (validation_inputs_targets p) rs w0) [0..<n]))"
proof -
  have ne: "mnist_train \<noteq> []" using lt by auto
  note f = prepared_fields [OF pre nvs te ne]
  have shapes: "\<forall>s \<in> set (shuffled_order mnist_train r). tensor_shape (fst s) = Some [28, 28, 1]"
    for r using sh by (rule shuffled_order_shapes)
  have tr_ok: "train_batches p r \<noteq> [] \<and> list_all (model_accepts model) (train_batches p r)" for r
  proof
    have "drop (num_validation_samples train_examples) (shuffled_order mnist_train r) \<noteq> []"
      using lt by (simp add: length_shuffled_order)
    then show "train_batches p r \<noteq> []"
      unfolding f using BATCH_SIZE_pos by (intro chunks_nonempty) auto
    have "\<forall>s \<in> set (drop (num_validation_samples train_examples) (shuffled_order mnist_train r)).
        tensor_shape (fst s) = Some [28, 28, 1]"
      using shapes [of r] by (meson in_set_dropD)
    then show "list_all (model_accepts model) (train_batches p r)"
      unfolding f by (rule chunks_accepted)
  qed
  have "\<forall>s \<in> set (validation_inputs_targets p). tensor_shape (fst s) = Some [28, 28, 1]"
    unfolding f using shapes [of rv] by (meson in_set_takeD)
  then have val_ok: "list_all (model_accepts model)
      (chunks validation_batch_size (validation_inputs_targets p))"
    by (rule chunks_accepted)
  have "fit model k (train_batches p) n (validation_inputs_targets p) rs (w0, []) =
    Inr (weights_after k (train_batches p) rs w0 n,
         [] @ concat (map (epoch_events k (train_batches p) (validation_inputs_targets p) rs w0) [0..<n]))"
    using tr_ok val_ok by (intro fit_closed) auto
  then show ?thesis by simp
qed

lemma evaluate_prepared:
  assumes pre: "preprocess mnist_train mnist_test train_examples test_examples rv = Inr p"
    and nvs: "0 < num_validation_samples train_examples"
    and ne: "mnist_train \<noteq> []"
    and te: "0 < test_examples"
    and tne: "mnist_test \<noteq> []"
    and sh: "\<forall>s \<in> set mnist_test. tensor_shape (fst s) = Some [28, 28, 1]"
  shows "evaluate model k (test_batches p) (w, evs) =
    Inr (test_step k w (test_batches p []),
         (w, evs @ [TestEval (test_batches p []) (test_step k w (test_batches p []))]))"
proof -
  note f = prepared_fields [OF pre nvs te ne]
  have "map scale mnist_test \<noteq> []" using tne by simp
  then have n: "test_batches p [] \<noteq> []" unfolding f using te by (intro chunks_nonempty) auto
  have "\<forall>s \<in> set (map scale mnist_test). tensor_shape (fst s) = Some [28, 28, 1]"
    using sh by (auto simp: scale_shape)
  then have "list_all (model_accepts model) (test_batches p [])"
    unfolding f by (rule chunks_accepted)
  then show ?thesis using n by (simp add: evaluate_def test_on_def)
qed

lemma notebook_prepared:
  assumes pre: "preprocess mnist_train mnist_test train_examples test_examples rv = Inr p"
    and nvs: "0 < num_validation_samples train_examples"
    and lt: "num_validation_samples train_examples < length mnist_train"
    and te: "0 < test_examples"
    and tne: "mnist_test \<noteq> []"
    and sh: "\<forall>s \<in> set mnist_train. tensor_shape (fst s) = Some [28, 28, 1]"
    and sht: "\<forall>s \<in> set mnist_test. tensor_shape (fst s) = Some [28, 28, 1]"
    and w: "w = weights_after k (train_batches p) rs w0 NUM_EPOCHS"
    and evs: "evs = concat (map (epoch_events k (train_batches p) (validation_inputs_targets p) rs w0)
        [0..<NUM_EPOCHS])"
    and m: "m = test_step k w (test_batches p [])"
  shows "notebook mnist_train mnist_test train_examples test_examples k w0 rv rs =
    Inr (w, evs @ [TestEval (test_batches p []) m, Printed (fst m) (float64 (snd m * 100))])"
proof -
  have ne: "mnist_train \<noteq> []" using lt by auto
  have f: "fit model k (train_batches p) NUM_EPOCHS (validation_inputs_targets p) rs (w0, []) =
      Inr (w, evs)"
    unfolding w evs using pre nvs lt te sh by (rule fit_prepared)
  have e: "evaluate model k (test_batches p) (w, evs) =
      Inr (m, (w, evs @ [TestEval (test_batches p []) m]))"
    unfolding m using pre nvs ne te tne sht by (rule evaluate_prepared)
  show ?thesis
    by (simp add: notebook_def pre f e split: prod.split)
qed

lemma tensor_shape_constant_image: "tensor_shape (constant_image p) = Some [28, 28, 1]"
proof -
  have r: "replicate 28 x = x # replicate 27 x" for x :: 'b
    by (simp add: numeral_eq_Suc)
  have "list_all (\<lambda>r. length r = 28) (replicate 28 (replicate 28 [p]))"
    by (simp add: list_all_iff)
  moreover have "list_all (\<lambda>x. length x = 1) (concat (replicate 28 (replicate 28 [p])))"
    by (auto simp: list_all_iff)
  moreover have "(case replicate 28 (replicate 28 [p]) of [] \<Rightarrow> 0 | r # _ \<Rightarrow> length r) = 28"
    by (subst r) simp
  moreover have "(case concat (replicate 28 (replicate 28 [p])) of [] \<Rightarrow> 0 | x # _ \<Rightarrow> length x) = 1"
    by (subst r, subst r) simp
  ultimately show ?thesis
    by (simp add: tensor_shape_def constant_image_def)
qed

lemma first_sample_orders:
  assumes "length mnist_train = 60000"
  shows "hd (shuffled_order mnist_train []) = scale (hd mnist_train)"
    and "hd (drop 6000 (shuffled_order mnist_train (replicate 6000 1))) = scale (hd mnist_train)"
proof -
  define xs where "xs = map scale mnist_train"
  define buffer where "buffer = take BUFFER_SIZE xs"
  define rest where "rest = drop BUFFER_SIZE xs"
  have lr: "length rest = 50000"
    using assms by (simp add: rest_def xs_def BUFFER_SIZE_def)
  obtain a as where tr: "mnist_train = a # as" using assms by (cases mnist_train) auto
  then obtain c cs where "as = c # cs" using assms by (cases as) auto
  then have buf: "buffer = scale (hd mnist_train) # scale c # take 9998 (map scale cs)"
    using tr by (simp add: buffer_def xs_def BUFFER_SIZE_def)
  have order: "shuffled_order mnist_train rs = shuffle_emit rs buffer rest" for rs
    by (simp add: shuffled_order_def buffer_def rest_def xs_def)
  show "hd (shuffled_order mnist_train []) = scale (hd mnist_train)"
    by (simp add: order buf shuffle_emit_first)
  show "hd (drop 6000 (shuffled_order mnist_train (replicate 6000 1))) = scale (hd mnist_train)"
    using shuffle_emit_held_first [of 6000 rest "scale (hd mnist_train)" "scale c"
        "take 9998 (map scale cs)"] lr
    by (simp add: order buf)
qed

text \<open>
  Claim C6. For every MNIST-sized train split of 28 x 28 x 1 images, \<open>fit\<close> returns
  after exactly NUM_EPOCHS = 5 epochs: its events are five blocks in order, each a training
  step on every batch of that epoch's iteration over the training dataset followed by one
  evaluation of the validation inputs and targets (in batches of 32) on the weights reached
  when the pass is complete. The validation inputs are not held out: there are draws for
  which the first batch trained on in the first epoch contains a sample that the
  evaluation after that epoch, and after every later one, evaluates.
\<close>

theorem validation_not_held_out:
  assumes "length mnist_train = 60000"
    and "\<forall>s \<in> set mnist_train. tensor_shape (fst s) = Some [28, 28, 1]"
    and "rs 0 = replicate 6000 1"
  shows "\<exists>p w evs b bs.
      preprocess mnist_train mnist_test 60000 10000 [] = Inr p
    \<and> fit model k (train_batches p) NUM_EPOCHS (validation_inputs_targets p) rs (w0, []) = Inr (w, evs)
    \<and> NUM_EPOCHS = 5
    \<and> evs = concat (map (\<lambda>e. map (TrainStep e) (train_batches p (rs e)) @
                 [ValidationEval e (chunks 32 (validation_inputs_targets p))
                    (test_step k (weights_after k (train_batches p) rs w0 (Suc e))
                       (chunks 32 (validation_inputs_targets p)))])
               [0..<5])
    \<and> train_batches p (rs 0) = b # bs
    \<and> scale (hd mnist_train) \<in> set b
    \<and> scale (hd mnist_train) \<in> set (concat (chunks 32 (validation_inputs_targets p)))"
proof -
  define p where "p = \<lparr>train_batches =
           (\<lambda>rs. chunks BATCH_SIZE (drop 6000 (shuffled_order mnist_train rs))),
         validation_inputs_targets = take 6000 (shuffled_order mnist_train []),
         test_batches = (\<lambda>rs. chunks 10000 (map scale mnist_test))\<rparr>"
  define tr where "tr = drop 6000 (shuffled_order mnist_train (replicate 6000 1))"
  have ne: "mnist_train \<noteq> []" using assms(1) by auto
  have pre: "preprocess mnist_train mnist_test 60000 10000 [] = Inr p"
    unfolding p_def
    using preprocess_closed [of 60000 10000 mnist_train mnist_test "[]"] ne
    by (simp add: num_validation_samples_mnist)
  have fit: "fit model k (train_batches p) NUM_EPOCHS (validation_inputs_targets p) rs (w0, []) =
    Inr (weights_after k (train_batches p) rs w0 NUM_EPOCHS,
         concat (map (epoch_events k (train_batches p) (validation_inputs_targets p) rs w0)
           [0..<NUM_EPOCHS]))"
    using pre _ _ _ assms(2)
    by (rule fit_prepared) (simp_all add: num_validation_samples_mnist assms(1))
  have ee: "epoch_events k (train_batches p) (validation_inputs_targets p) rs w0 =
      (\<lambda>e. map (TrainStep e) (train_batches p (rs e)) @
                 [ValidationEval e (chunks 32 (validation_inputs_targets p))
                    (test_step k (weights_after k (train_batches p) rs w0 (Suc e))
                       (chunks 32 (validation_inputs_targets p)))])"
    by (simp add: fun_eq_iff epoch_events_def validation_batch_size_def)
  have lo: "length (shuffled_order mnist_train r) = 60000" for r
    using assms(1) by (simp add: length_shuffled_order)
  have "length tr = 54000" unfolding tr_def using lo [of "replicate 6000 1"] by simp
  then have trne: "tr \<noteq> []" by auto
  have "train_batches p (rs 0) = chunks BATCH_SIZE tr"
    by (simp add: p_def assms(3) tr_def)
  also have "\<dots> = take BATCH_SIZE tr # chunks BATCH_SIZE (drop BATCH_SIZE tr)"
    using BATCH_SIZE_pos trne by (rule chunks_step)
  finally have step:
    "train_batches p (rs 0) = take BATCH_SIZE tr # chunks BATCH_SIZE (drop BATCH_SIZE tr)" .
  have "hd (take BATCH_SIZE tr) = scale (hd mnist_train)"
    using BATCH_SIZE_pos first_sample_orders(2) [OF assms(1)] by (simp add: hd_take tr_def)
  moreover have "take BATCH_SIZE tr \<noteq> []" using trne BATCH_SIZE_pos by simp
  ultimately have inb: "scale (hd mnist_train) \<in> set (take BATCH_SIZE tr)"
    using hd_in_set [of "take BATCH_SIZE tr"] by simp
  have "take 6000 (shuffled_order mnist_train []) \<noteq> []" using lo [of "[]"] by auto
  moreover have "hd (take 6000 (shuffled_order mnist_train [])) = scale (hd mnist_train)"
    using first_sample_orders(1) [OF assms(1)] by (simp add: hd_take)
  ultimately have "scale (hd mnist_train) \<in> set (validation_inputs_targets p)"
    using hd_in_set [of "take 6000 (shuffled_order mnist_train [])"] by (simp add: p_def)
  then have inv: "scale (hd mnist_train) \<in> set (concat (chunks 32 (validation_inputs_targets p)))"
    by (simp add: concat_chunks)
  show ?thesis
    using pre fit NUM_EPOCHS_def step inb inv unfolding ee
    by (metis (no_types, lifting))
qed

theorem validation_not_held_out_witness:
  "\<exists>p w evs b bs.
      preprocess (replicate 60000 (constant_image 0, 0 :: nat)) [] 60000 10000 [] = Inr p
    \<and> fit model \<lparr>train_step = (\<lambda>w b. Suc w), test_step = (\<lambda>w bs. (0, 1))\<rparr> (train_batches p)
        NUM_EPOCHS (validation_inputs_targets p) (\<lambda>e. replicate 6000 1) (0 :: nat, []) = Inr (w, evs)
    \<and> train_batches p (replicate 6000 1) = b # bs
    \<and> scale (hd (replicate 60000 (constant_image 0, 0 :: nat))) \<in> set b
    \<and> scale (hd (replicate 60000 (constant_image 0, 0 :: nat)))
        \<in> set (concat (chunks 32 (validation_inputs_targets p)))"
proof -
  have h1: "length (replicate 60000 (constant_image 0, 0 :: nat)) = 60000" by simp
  have h2: "\<forall>s \<in> set (replicate 60000 (constant_image 0, 0 :: nat)).
      tensor_shape (fst s) = Some [28, 28, 1]"
    by (simp add: tensor_shape_constant_image)
  have h3: "(\<lambda>e :: nat. replicate 6000 (1 :: nat)) 0 = replicate 6000 1" by simp
  show ?thesis
    using validation_not_held_out [OF h1 h2 h3, of "[]"
        "\<lparr>train_step = (\<lambda>w b. Suc w), test_step = (\<lambda>w bs. (0, 1))\<rparr>" "0 :: nat"]
    apply (elim exE conjE)
    subgoal for p w evs b bs
      apply (rule exI [of _ p], rule exI [of _ w], rule exI [of _ evs], rule exI [of _ b],
          rule exI [of _ bs])
      apply (intro conjI; assumption)
      done
    done
qed

section \<open>The final evaluation\<close>

lemma filter_test_epochs:
  "filter is_test (concat (map (epoch_events k x val rs w0) [0..<n])) = []"
  by (induction n) (simp_all add: epoch_events_def filter_map comp_def)

lemma validation_from_train_split:
  "set (take n (shuffled_order mnist_train rs)) \<subseteq> scale ` set mnist_train"
  using set_take_subset [of n "shuffled_order mnist_train rs"]
  by (simp only: set_shuffled_order)

lemma training_from_train_split:
  "set (concat (chunks BATCH_SIZE (drop n (shuffled_order mnist_train rs)))) \<subseteq> scale ` set mnist_train"
  using set_drop_subset [of n "shuffled_order mnist_train rs"]
  by (simp only: concat_chunks [OF BATCH_SIZE_pos] set_shuffled_order)

lemma scaled_splits_disjoint:
  assumes "set mnist_train \<inter> set mnist_test = {}"
  shows "set (map scale mnist_test) \<inter> scale ` set mnist_train = {}"
proof -
  have "scale ` set mnist_test \<inter> scale ` set mnist_train = scale ` (set mnist_test \<inter> set mnist_train)"
    by (rule image_Int [OF inj_scale, symmetric])
  then show ?thesis using assms by (simp add: Int_commute)
qed

text \<open>
  Claim C7. When the counts are positive, training data remain after the validation
  samples are taken, the test split is not empty and all images have the shape the
  classifier declares, the notebook runs to its end; its events are those of training
  followed by exactly one evaluation on the test batches, made with the weights training
  ended with, and the print of both the test loss and the test accuracy (as a
  percentage). The test batches hold the scaled test split only: if the provider's test
  split shares no sample with its train split, they share no sample with the validation
  inputs or with any training batch.
\<close>

theorem test_evaluated_once:
  assumes "0 < num_validation_samples train_examples"
    and "num_validation_samples train_examples < length mnist_train"
    and "0 < test_examples"
    and "mnist_test \<noteq> []"
    and "\<forall>s \<in> set mnist_train. tensor_shape (fst s) = Some [28, 28, 1]"
    and "\<forall>s \<in> set mnist_test. tensor_shape (fst s) = Some [28, 28, 1]"
    and "set mnist_train \<inter> set mnist_test = {}"
  shows "\<exists>p w evs m.
      preprocess mnist_train mnist_test train_examples test_examples rv = Inr p
    \<and> fit model k (train_batches p) NUM_EPOCHS (validation_inputs_targets p) rs (w0, []) = Inr (w, evs)
    \<and> m = test_step k w (test_batches p [])
    \<and> notebook mnist_train mnist_test train_examples test_examples k w0 rv rs =
        Inr (w, evs @ [TestEval (test_batches p []) m, Printed (fst m) (float64 (snd m * 100))])
    \<and> filter is_test (evs @ [TestEval (test_batches p []) m, Printed (fst m) (float64 (snd m * 100))]) =
        [TestEval (test_batches p []) m]
    \<and> concat (test_batches p []) = map scale mnist_test
    \<and> set (concat (test_batches p [])) \<inter> set (validation_inputs_targets p) = {}
    \<and> (\<forall>r. set (concat (test_batches p [])) \<inter> set (concat (train_batches p r)) = {})"
proof -
  define n where "n = num_validation_samples train_examples"
  define p where "p = \<lparr>train_batches = (\<lambda>rs. chunks BATCH_SIZE (drop n (shuffled_order mnist_train rs))),
         validation_inputs_targets = take n (shuffled_order mnist_train rv),
         test_batches = (\<lambda>rs. chunks test_examples (map scale mnist_test))\<rparr>"
  define w where "w = weights_after k (train_batches p) rs w0 NUM_EPOCHS"
  define evs where "evs = concat (map (epoch_events k (train_batches p) (validation_inputs_targets p) rs w0) [0..<NUM_EPOCHS])"
  define m where "m = test_step k w (test_batches p [])"
  have ne: "mnist_train \<noteq> []" using assms(2) by auto
  have c1: "preprocess mnist_train mnist_test train_examples test_examples rv = Inr p"
    unfolding p_def n_def using assms(1,3) ne by (rule preprocess_closed)
  have c2: "fit model k (train_batches p) NUM_EPOCHS (validation_inputs_targets p) rs (w0, []) = Inr (w, evs)"
    unfolding w_def evs_def using c1 assms(1,2,3,5) by (rule fit_prepared)
  have c4: "notebook mnist_train mnist_test train_examples test_examples k w0 rv rs =
        Inr (w, evs @ [TestEval (test_batches p []) m, Printed (fst m) (float64 (snd m * 100))])"
    using c1 assms(1,2,3,4,5,6) w_def evs_def m_def by (rule notebook_prepared)
  have c5: "filter is_test (evs @ [TestEval (test_batches p []) m, Printed (fst m) (float64 (snd m * 100))]) =
      [TestEval (test_batches p []) m]"
    by (simp add: evs_def filter_test_epochs)
  have c6: "concat (test_batches p []) = map scale mnist_test"
    using assms(3) by (simp add: p_def concat_chunks)
  have d: "set (map scale mnist_test) \<inter> scale ` set mnist_train = {}"
    using assms(7) by (rule scaled_splits_disjoint)
  have "set (validation_inputs_targets p) \<subseteq> scale ` set mnist_train"
    unfolding p_def by (simp add: validation_from_train_split)
  then have c7: "set (concat (test_batches p [])) \<inter> set (validation_inputs_targets p) = {}"
    using d unfolding c6 by blast
  have "set (concat (train_batches p r)) \<subseteq> scale ` set mnist_train" for r
    unfolding p_def using training_from_train_split [of n mnist_train r] by simp
  then have c8: "\<forall>r. set (concat (test_batches p [])) \<inter> set (concat (train_batches p r)) = {}"
    using d unfolding c6 by blast
  show ?thesis using c1 c2 c4 c5 c6 c7 c8 m_def by blast
qed

theorem test_evaluated_once_witness:
  "\<exists>p w evs. preprocess (replicate 60000 (constant_image 0, 0 :: nat))
        (replicate 10000 (constant_image 1, 1 :: nat)) 60000 10000 [] = Inr p
    \<and> notebook (replicate 60000 (constant_image 0, 0 :: nat))
        (replicate 10000 (constant_image 1, 1 :: nat)) 60000 10000
        \<lparr>train_step = (\<lambda>w b. Suc w), test_step = (\<lambda>w bs. (0, 1))\<rparr> (0 :: nat) [] (\<lambda>e. [])
      = Inr (w, evs @ [TestEval (test_batches p []) (0, 1), Printed 0 (float64 (1 * 100))])
    \<and> filter is_test (evs @ [TestEval (test_batches p []) (0, 1), Printed 0 (float64 (1 * 100))]) =
        [TestEval (test_batches p []) (0, 1)]"
proof -
  have h1: "0 < num_validation_samples 60000" by (simp add: num_validation_samples_mnist)
  have h2: "num_validation_samples 60000 < length (replicate 60000 (constant_image 0, 0 :: nat))"
    by (simp add: num_validation_samples_mnist)
  have h3: "(0 :: nat) < 10000" by simp
  have h4: "replicate 10000 (constant_image 1, 1 :: nat) \<noteq> []" by simp
  have h5: "\<forall>s \<in> set (replicate 60000 (constant_image 0, 0 :: nat)).
      tensor_shape (fst s) = Some [28, 28, 1]"
    by (simp add: tensor_shape_constant_image)
  have h6: "\<forall>s \<in> set (replicate 10000 (constant_image 1, 1 :: nat)).
      tensor_shape (fst s) = Some [28, 28, 1]"
    by (simp add: tensor_shape_constant_image)
  have h7: "set (replicate 60000 (constant_image 0, 0 :: nat)) \<inter>
      set (replicate 10000 (constant_image 1, 1 :: nat)) = {}"
    by simp
  show ?thesis
    using test_evaluated_once [OF h1 h2 h3 h4 h5 h6 h7, of "[]"
        "\<lparr>train_step = (\<lambda>w b. Suc w), test_step = (\<lambda>w bs. (0, 1))\<rparr>" "\<lambda>e. []" "0 :: nat"]
    apply (elim exE conjE)
    subgoal for p w evs m
      apply (rule exI [of _ p], rule exI [of _ w], rule exI [of _ evs])
      apply (simp only: keras.simps fst_conv snd_conv)
      done
    done
qed

section \<open>Batches presented to the steps\<close>

text \<open>
  Claim C3, in the form the code satisfies. Whenever the counts are those of the splits, both are positive,
  the batch size divides the number of training samples (as for MNIST, 54000 = 540 * 100)
  and the images have the declared shape: every iteration over the training dataset yields
  the whole training partition as a positive number of batches of exactly BATCH_SIZE = 100
  samples, and these are the batches of the training steps; the validation dataset yields
  the single batch of num_validation_samples samples that becomes the validation inputs
  and targets; the test dataset yields the single batch of all num_test_samples test
  samples, and this is the batch of the final evaluation. The evaluation after each
  epoch receives the validation inputs and targets in batches of at most 32 samples.
\<close>

theorem partitions_batched:
  assumes "length mnist_train = train_examples"
    and "length mnist_test = test_examples"
    and "0 < test_examples"
    and "0 < num_validation_samples train_examples"
    and "num_validation_samples train_examples < train_examples"
    and "BATCH_SIZE dvd train_examples - num_validation_samples train_examples"
    and "\<forall>s \<in> set mnist_train. tensor_shape (fst s) = Some [28, 28, 1]"
    and "\<forall>s \<in> set mnist_test. tensor_shape (fst s) = Some [28, 28, 1]"
  shows "\<exists>p shuffled validation w evs m.
      preprocess mnist_train mnist_test train_examples test_examples rv = Inr p
    \<and> BATCH_SIZE = 100
    \<and> shuffled_train_and_validation_data mnist_train = Inr shuffled
    \<and> concat (train_batches p r) = train_data (num_validation_samples train_examples) shuffled r
    \<and> length (train_batches p r) =
        (train_examples - num_validation_samples train_examples) div BATCH_SIZE
    \<and> 0 < length (train_batches p r)
    \<and> (\<forall>b \<in> set (train_batches p r). length b = BATCH_SIZE)
    \<and> dataset_batch (num_validation_samples train_examples)
         (validation_data (num_validation_samples train_examples) shuffled) = Inr validation
    \<and> validation rv = [validation_inputs_targets p]
    \<and> length (validation_inputs_targets p) = num_validation_samples train_examples
    \<and> test_batches p r = [map scale mnist_test]
    \<and> length (map scale mnist_test) = num_test_samples test_examples
    \<and> notebook mnist_train mnist_test train_examples test_examples k w0 rv rs = Inr (w, evs)
    \<and> evs = concat (map (\<lambda>e. map (TrainStep e) (train_batches p (rs e)) @
                 [ValidationEval e (chunks 32 (validation_inputs_targets p))
                    (test_step k (weights_after k (train_batches p) rs w0 (Suc e))
                       (chunks 32 (validation_inputs_targets p)))])
               [0..<NUM_EPOCHS])
            @ [TestEval (test_batches p []) m, Printed (fst m) (float64 (snd m * 100))]
    \<and> concat (chunks 32 (validation_inputs_targets p)) = validation_inputs_targets p
    \<and> (\<forall>b \<in> set (chunks 32 (validation_inputs_targets p)). 0 < length b \<and> length b \<le> 32)"
proof -
  define n where "n = num_validation_samples train_examples"
  define val where "val = take n (shuffled_order mnist_train rv)"
  define p where "p = \<lparr>train_batches = (\<lambda>rs. chunks BATCH_SIZE (drop n (shuffled_order mnist_train rs))),
         validation_inputs_targets = val,
         test_batches = (\<lambda>rs. chunks test_examples (map scale mnist_test))\<rparr>"
  define validation where "validation = (\<lambda>rs. chunks n (take n (shuffled_order mnist_train rs)))"
  define w where "w = weights_after k (train_batches p) rs w0 NUM_EPOCHS"
  define tevs where "tevs = concat (map (epoch_events k (train_batches p) (validation_inputs_targets p) rs w0) [0..<NUM_EPOCHS])"
  define m where "m = test_step k w (test_batches p [])"
  define evs where "evs = tevs @ [TestEval (test_batches p []) m, Printed (fst m) (float64 (snd m * 100))]"
  have npos: "0 < n" and nlt: "n < train_examples" using assms(4,5) by (simp_all add: n_def)
  have ne: "mnist_train \<noteq> []" using assms(1) nlt by auto
  have tne: "mnist_test \<noteq> []" using assms(2,3) by auto
  have c1: "preprocess mnist_train mnist_test train_examples test_examples rv = Inr p"
    unfolding p_def val_def n_def using assms(4,3) ne by (rule preprocess_closed)
  have c3: "shuffled_train_and_validation_data mnist_train = Inr (shuffled_order mnist_train)"
    by (rule shuffled_is_order)
  have c4: "concat (train_batches p r) = train_data n (shuffled_order mnist_train) r"
    by (simp add: p_def concat_chunks [OF BATCH_SIZE_pos] train_data_def dataset_skip_def)
  obtain q where q: "train_examples - n = q * BATCH_SIZE"
    using assms(6) unfolding n_def dvd_def by (metis mult.commute)
  have lrest: "length (drop n (shuffled_order mnist_train r)) = q * BATCH_SIZE"
    using assms(1) q by (simp add: length_shuffled_order)
  have ex: "length (chunks BATCH_SIZE (drop n (shuffled_order mnist_train r))) = q
      \<and> (\<forall>b \<in> set (chunks BATCH_SIZE (drop n (shuffled_order mnist_train r))). length b = BATCH_SIZE)"
    using BATCH_SIZE_pos lrest by (rule chunks_exact)
  have qd: "q = (train_examples - n) div BATCH_SIZE"
    using q BATCH_SIZE_pos by simp
  have qpos: "0 < q" using q nlt by (cases q) auto
  have c5: "length (train_batches p r) = (train_examples - n) div BATCH_SIZE"
    using ex qd by (simp add: p_def)
  have c6: "0 < length (train_batches p r)" using ex qpos by (simp add: p_def)
  have c7: "\<forall>b \<in> set (train_batches p r). length b = BATCH_SIZE"
    using ex by (simp add: p_def)
  have c8: "dataset_batch n (validation_data n (shuffled_order mnist_train)) = Inr validation"
    using npos by (simp add: dataset_batch_def validation_data_def dataset_take_def validation_def)
  have lv: "length val = n"
    using assms(1) nlt by (simp add: val_def length_shuffled_order)
  then have "val \<noteq> []" using npos by auto
  then have "chunks n val = [val]"
    using npos lv by (intro chunks_single) auto
  then have c9: "validation rv = [validation_inputs_targets p]"
    by (simp add: validation_def p_def val_def)
  have c10: "length (validation_inputs_targets p) = n"
    using lv by (simp add: p_def)
  have "map scale mnist_test \<noteq> []" using tne by simp
  then have "chunks test_examples (map scale mnist_test) = [map scale mnist_test]"
    using assms(2,3) by (intro chunks_single) auto
  then have c11: "test_batches p r = [map scale mnist_test]"
    by (simp add: p_def)
  have c12: "length (map scale mnist_test) = num_test_samples test_examples"
    using assms(2) by (simp add: num_test_samples_def)
  have lt': "num_validation_samples train_examples < length mnist_train"
    using assms(1,5) by simp
  have c13: "notebook mnist_train mnist_test train_examples test_examples k w0 rv rs = Inr (w, evs)"
    unfolding evs_def
    using c1 assms(4) lt' assms(3) tne assms(7,8) w_def tevs_def m_def by (rule notebook_prepared)
  have ee: "epoch_events k (train_batches p) (validation_inputs_targets p) rs w0 =
      (\<lambda>e. map (TrainStep e) (train_batches p (rs e)) @
                 [ValidationEval e (chunks 32 (validation_inputs_targets p))
                    (test_step k (weights_after k (train_batches p) rs w0 (Suc e))
                       (chunks 32 (validation_inputs_targets p)))])"
    by (simp add: fun_eq_iff epoch_events_def validation_batch_size_def)
  have c14: "evs = concat (map (\<lambda>e. map (TrainStep e) (train_batches p (rs e)) @
                 [ValidationEval e (chunks 32 (validation_inputs_targets p))
                    (test_step k (weights_after k (train_batches p) rs w0 (Suc e))
                       (chunks 32 (validation_inputs_targets p)))])
               [0..<NUM_EPOCHS])
            @ [TestEval (test_batches p []) m, Printed (fst m) (float64 (snd m * 100))]"
    unfolding evs_def tevs_def ee ..
  have c15: "concat (chunks 32 (validation_inputs_targets p)) = validation_inputs_targets p"
    by (rule concat_chunks) simp
  have c16: "\<forall>b \<in> set (chunks 32 (validation_inputs_targets p)). 0 < length b \<and> length b \<le> 32"
    using chunks_bounds [of 32 _ "validation_inputs_targets p"] by simp
  show ?thesis
    apply (rule exI [of _ p], rule exI [of _ "shuffled_order mnist_train"],
        rule exI [of _ validation], rule exI [of _ w], rule exI [of _ evs], rule exI [of _ m])
    apply (insert c1 BATCH_SIZE_def c3 c4 c5 c6 c7 c8 c9 c10 c11 c12 c13 c14 c15 c16)
    apply (unfold n_def)
    apply (intro conjI; assumption)
    done
qed


theorem partitions_batched_witness:
  "\<exists>p w evs. preprocess (replicate 60000 (constant_image 0, 0 :: nat))
        (replicate 10000 (constant_image 1, 1 :: nat)) 60000 10000 [] = Inr p
    \<and> length (train_batches p []) = (60000 - num_validation_samples 60000) div BATCH_SIZE
    \<and> length (validation_inputs_targets p) = num_validation_samples 60000
    \<and> test_batches p [] = [map scale (replicate 10000 (constant_image 1, 1 :: nat))]
    \<and> notebook (replicate 60000 (constant_image 0, 0 :: nat))
        (replicate 10000 (constant_image 1, 1 :: nat)) 60000 10000
        \<lparr>train_step = (\<lambda>w b. Suc w), test_step = (\<lambda>w bs. (0, 1))\<rparr> (0 :: nat) [] (\<lambda>e. [])
      = Inr (w, evs)"
proof -
  have h1: "length (replicate 60000 (constant_image 0, 0 :: nat)) = 60000" by simp
  have h2: "length (replicate 10000 (constant_image 1, 1 :: nat)) = 10000" by simp
  have h3: "(0 :: nat) < 10000" by simp
  have h4: "0 < num_validation_samples 60000" by (simp add: num_validation_samples_mnist)
  have h5: "num_validation_samples 60000 < 60000" by (simp add: num_validation_samples_mnist)
  have h6: "BATCH_SIZE dvd 60000 - num_validation_samples 60000"
    by (simp add: num_validation_samples_mnist BATCH_SIZE_def)
  have h7: "\<forall>s \<in> set (replicate 60000 (constant_image 0, 0 :: nat)).
      tensor_shape (fst s) = Some [28, 28, 1]"
    by (simp add: tensor_shape_constant_image)
  have h8: "\<forall>s \<in> set (replicate 10000 (constant_image 1, 1 :: nat)).
      tensor_shape (fst s) = Some [28, 28, 1]"
    by (simp add: tensor_shape_constant_image)
  show ?thesis
    using partitions_batched [OF h1 h2 h3 h4 h5 h6 h7 h8, of "[]" "[]"
        "\<lparr>train_step = (\<lambda>w b. Suc w), test_step = (\<lambda>w bs. (0, 1))\<rparr>" "0 :: nat" "\<lambda>e. []"]
    apply (elim exE conjE)
    subgoal for p shuffled validation w evs m
      apply (rule exI [of _ p], rule exI [of _ w], rule exI [of _ evs])
      apply (intro conjI; assumption)
      done
    done
qed

text \<open>
  Claim C3, as stated, fails for the validation partition: on an MNIST-sized run the
  evaluation after the first epoch is given 187 batches of 32 samples and one of 16, not
  batches of num_validation_samples = 6000 samples and not batches of one size.
\<close>

theorem validation_evaluated_in_batches_of_32:
  "\<exists>w evs bs m.
      notebook (replicate 60000 (constant_image 0, 0 :: nat))
        (replicate 10000 (constant_image 1, 1 :: nat)) 60000 10000
        \<lparr>train_step = (\<lambda>w b. Suc w), test_step = (\<lambda>w bs. (0, 1))\<rparr> (0 :: nat) [] (\<lambda>e. [])
      = Inr (w, evs)
    \<and> ValidationEval 0 bs m \<in> set evs
    \<and> map length bs = replicate 187 32 @ [16]
    \<and> num_validation_samples 60000 = 6000"
proof -
  define tr where "tr = replicate 60000 (constant_image 0, 0 :: nat)"
  define te where "te = replicate 10000 (constant_image 1, 1 :: nat)"
  define k :: "(nat, nat sample list) keras"
    where "k = \<lparr>train_step = (\<lambda>w b. Suc w), test_step = (\<lambda>w bs. (0, 1))\<rparr>"
  define p where "p = \<lparr>train_batches =
           (\<lambda>rs. chunks BATCH_SIZE (drop 6000 (shuffled_order tr rs))),
         validation_inputs_targets = take 6000 (shuffled_order tr []),
         test_batches = (\<lambda>rs. chunks 10000 (map scale te))\<rparr>"
  define w where "w = weights_after k (train_batches p) (\<lambda>e. []) 0 NUM_EPOCHS"
  define tevs where "tevs = concat (map (epoch_events k (train_batches p)
      (validation_inputs_targets p) (\<lambda>e. []) 0) [0..<NUM_EPOCHS])"
  define m where "m = test_step k w (test_batches p [])"
  have ne: "tr \<noteq> []" by (simp add: tr_def)
  have pre: "preprocess tr te 60000 10000 [] = Inr p"
    unfolding p_def using preprocess_closed [of 60000 10000 tr te "[]"] ne
    by (simp add: num_validation_samples_mnist)
  have run: "notebook tr te 60000 10000 k 0 [] (\<lambda>e. []) =
      Inr (w, tevs @ [TestEval (test_batches p []) m, Printed (fst m) (float64 (snd m * 100))])"
    using pre _ _ _ _ _ _ w_def tevs_def m_def
    by (rule notebook_prepared)
      (simp_all add: num_validation_samples_mnist tr_def te_def tensor_shape_constant_image)
  have "length (validation_inputs_targets p) = 187 * 32 + 16"
    by (simp add: p_def length_shuffled_order tr_def)
  then have sizes: "map length (chunks 32 (validation_inputs_targets p)) = replicate 187 32 @ [16]"
    by (intro chunks_lengths) auto
  have "ValidationEval 0 (chunks 32 (validation_inputs_targets p))
      (test_step k (weights_after k (train_batches p) (\<lambda>e. []) 0 (Suc 0))
         (chunks 32 (validation_inputs_targets p)))
      \<in> set (epoch_events k (train_batches p) (validation_inputs_targets p) (\<lambda>e. []) 0 0)"
    by (simp add: epoch_events_def validation_batch_size_def)
  moreover have "set (epoch_events k (train_batches p) (validation_inputs_targets p) (\<lambda>e. []) 0 0)
      \<subseteq> set tevs"
  proof -
    have "(0 :: nat) \<in> set [0..<NUM_EPOCHS]" by (simp add: NUM_EPOCHS_def)
    then show ?thesis unfolding tevs_def by (simp only: set_concat set_map) blast
  qed
  ultimately have mem: "ValidationEval 0 (chunks 32 (validation_inputs_targets p))
      (test_step k (weights_after k (train_batches p) (\<lambda>e. []) 0 (Suc 0))
         (chunks 32 (validation_inputs_targets p)))
      \<in> set (tevs @ [TestEval (test_batches p []) m, Printed (fst m) (float64 (snd m * 100))])"
    by auto
  show ?thesis
    apply (rule exI [of _ w],
        rule exI [of _ "tevs @ [TestEval (test_batches p []) m, Printed (fst m) (float64 (snd m * 100))]"],
        rule exI [of _ "chunks 32 (validation_inputs_targets p)"],
        rule exI [of _ "test_step k (weights_after k (train_batches p) (\<lambda>e. []) 0 (Suc 0))
         (chunks 32 (validation_inputs_targets p))"])
    apply (insert run mem sizes num_validation_samples_mnist)
    apply (unfold tr_def te_def k_def)
    apply (intro conjI; assumption)
    done
qed

end
